theory Spec2Isabelle
  imports Complex_Main "HOL-Library.Multiset"
begin

section \<open>Circuit breaker (server/services/circuitBreaker.js)\<close>

text \<open>
  The breaker is a class with mutable fields; every method is modelled as a function
  from the breaker to the updated breaker.  \<open>Date.now()\<close> is an explicit argument: one
  instant (milliseconds, an integer) per method call.  Counters are natural numbers.
  \<open>nextAttempt\<close> and \<open>lastFailureTime\<close> are \<open>null\<close> or a number, hence options.
\<close>

datatype cb_state = CLOSED | OPEN | HALF_OPEN

record state_change =
  sc_from :: cb_state
  sc_to :: cb_state
  sc_timestamp :: int

record cb_metrics =
  totalCalls :: nat
  successfulCalls :: nat
  failedCalls :: nat
  rejectedCalls :: nat
  stateChanges :: "state_change list"

record breaker =
  failureThreshold :: nat
  successThreshold :: nat
  timeout :: int
  state :: cb_state
  failures :: nat
  successes :: nat
  lastFailureTime :: "int option"
  nextAttempt :: "int option"
  metrics :: cb_metrics

record breaker_options =
  opt_failureThreshold :: "nat option"
  opt_successThreshold :: "nat option"
  opt_timeout :: "int option"

text \<open>\<open>options.x || d\<close>: the default is taken when the option is absent or zero.\<close>

definition or_default_nat :: "nat option \<Rightarrow> nat \<Rightarrow> nat" where
  "or_default_nat v d = (case v of None \<Rightarrow> d | Some n \<Rightarrow> if n = 0 then d else n)"

definition or_default_int :: "int option \<Rightarrow> int \<Rightarrow> int" where
  "or_default_int v d = (case v of None \<Rightarrow> d | Some n \<Rightarrow> if n = 0 then d else n)"

definition new_breaker :: "breaker_options \<Rightarrow> breaker" where
  "new_breaker opts =
     \<lparr> failureThreshold = or_default_nat (opt_failureThreshold opts) 5,
       successThreshold = or_default_nat (opt_successThreshold opts) 2,
       timeout = or_default_int (opt_timeout opts) 60000,
       state = CLOSED,
       failures = 0,
       successes = 0,
       lastFailureTime = None,
       nextAttempt = None,
       metrics = \<lparr> totalCalls = 0, successfulCalls = 0, failedCalls = 0,
                   rejectedCalls = 0, stateChanges = [] \<rparr> \<rparr>"

text \<open>
  \<open>transitionTo\<close>: set the state, append the change to the audit trail, drop the oldest
  entry when more than ten are held, then adjust the counters for the new state.
\<close>

definition push_change :: "state_change \<Rightarrow> cb_metrics \<Rightarrow> cb_metrics" where
  "push_change c m =
     (let cs = stateChanges m @ [c]
      in m\<lparr>stateChanges := (if length cs > 10 then tl cs else cs)\<rparr>)"

definition transitionTo :: "cb_state \<Rightarrow> int \<Rightarrow> breaker \<Rightarrow> breaker" where
  "transitionTo newState now b =
     (let oldState = state b;
          b1 = b\<lparr>state := newState,
                 metrics := push_change
                   \<lparr>sc_from = oldState, sc_to = newState, sc_timestamp = now\<rparr> (metrics b)\<rparr>
      in case newState of
           OPEN \<Rightarrow> b1\<lparr>nextAttempt := Some (now + timeout b), successes := 0\<rparr>
         | CLOSED \<Rightarrow> b1\<lparr>failures := 0, successes := 0, nextAttempt := None\<rparr>
         | HALF_OPEN \<Rightarrow> b1\<lparr>successes := 0\<rparr>)"

text \<open>
  \<open>canExecute\<close> returns the answer and the breaker, which changes when the cooldown
  has passed.  In \<open>Date.now() >= this.nextAttempt\<close> a \<open>null\<close> is read as 0.
\<close>

definition canExecute :: "int \<Rightarrow> breaker \<Rightarrow> bool \<times> breaker" where
  "canExecute now b =
     (case state b of
        CLOSED \<Rightarrow> (True, b)
      | OPEN \<Rightarrow>
          (if now \<ge> (case nextAttempt b of None \<Rightarrow> 0 | Some t \<Rightarrow> t)
           then (True, transitionTo HALF_OPEN now b)
           else (False, b))
      | HALF_OPEN \<Rightarrow> (True, b))"

definition count_success :: "cb_metrics \<Rightarrow> cb_metrics" where
  "count_success m = m\<lparr>totalCalls := totalCalls m + 1, successfulCalls := successfulCalls m + 1\<rparr>"

definition count_failure :: "cb_metrics \<Rightarrow> cb_metrics" where
  "count_failure m = m\<lparr>totalCalls := totalCalls m + 1, failedCalls := failedCalls m + 1\<rparr>"

definition recordSuccess :: "int \<Rightarrow> breaker \<Rightarrow> breaker" where
  "recordSuccess now b =
     (let b1 = b\<lparr>metrics := count_success (metrics b)\<rparr>
      in if state b1 = HALF_OPEN then
           (let b2 = b1\<lparr>successes := successes b1 + 1\<rparr>
            in if successes b2 \<ge> successThreshold b2 then transitionTo CLOSED now b2 else b2)
         else if state b1 = CLOSED then b1\<lparr>failures := 0\<rparr>
         else b1)"

definition recordFailure :: "int \<Rightarrow> breaker \<Rightarrow> breaker" where
  "recordFailure now b =
     (let b1 = b\<lparr>metrics := count_failure (metrics b), lastFailureTime := Some now\<rparr>
      in if state b1 = HALF_OPEN then transitionTo OPEN now b1
         else if state b1 = CLOSED then
           (let b2 = b1\<lparr>failures := failures b1 + 1\<rparr>
            in if failures b2 \<ge> failureThreshold b2 then transitionTo OPEN now b2 else b2)
         else b1)"

text \<open>Consecutive calls, one instant per call.\<close>

definition recordFailures :: "int list \<Rightarrow> breaker \<Rightarrow> breaker" where
  "recordFailures ts b = foldl (\<lambda>b t. recordFailure t b) b ts"

definition recordSuccesses :: "int list \<Rightarrow> breaker \<Rightarrow> breaker" where
  "recordSuccesses ts b = foldl (\<lambda>b t. recordSuccess t b) b ts"

subsection \<open>Properties of the breaker\<close>

lemma recordFailure_open:
  "state b = OPEN \<Longrightarrow>
     state (recordFailure t b) = OPEN \<and> nextAttempt (recordFailure t b) = nextAttempt b"
  by (simp add: recordFailure_def Let_def)

lemma recordFailures_open:
  "state b = OPEN \<Longrightarrow>
     state (recordFailures ts b) = OPEN \<and> nextAttempt (recordFailures ts b) = nextAttempt b"
  unfolding recordFailures_def
  by (induction ts arbitrary: b) (simp_all add: recordFailure_open)

lemma recordFailure_thresholds:
  "failureThreshold (recordFailure t b) = failureThreshold b"
  by (simp add: recordFailure_def transitionTo_def Let_def split: cb_state.splits)

lemma recordFailures_closed:
  "state b = CLOSED \<Longrightarrow> failureThreshold b \<le> failures b + length ts \<Longrightarrow> 0 < length ts \<Longrightarrow>
     state (recordFailures ts b) = OPEN \<and> (\<exists>t. nextAttempt (recordFailures ts b) = Some t)"
proof (induction ts arbitrary: b)
  case Nil
  then show ?case by simp
next
  case (Cons t ts)
  let ?b = "recordFailure t b"
  have step: "recordFailures (t # ts) b = recordFailures ts ?b"
    by (simp add: recordFailures_def)
  show ?case
  proof (cases "failureThreshold b \<le> failures b + 1")
    case True
    with Cons.prems have "state ?b = OPEN" and "\<exists>u. nextAttempt ?b = Some u"
      by (simp_all add: recordFailure_def transitionTo_def Let_def)
    with recordFailures_open [of ?b ts] show ?thesis
      by (simp add: step)
  next
    case False
    with Cons.prems have st: "state ?b = CLOSED" and fl: "failures ?b = failures b + 1"
      by (simp_all add: recordFailure_def Let_def)
    from False Cons.prems have "0 < length ts" by (cases ts) auto
    moreover from Cons.prems fl
    have "failureThreshold ?b \<le> failures ?b + length ts"
      by (simp add: recordFailure_thresholds)
    ultimately show ?thesis
      using Cons.IH [OF st] by (simp add: step)
  qed
qed

lemma recordSuccess_closed:
  "state b = CLOSED \<Longrightarrow>
     state (recordSuccess t b) = CLOSED \<and> failures (recordSuccess t b) = 0"
  by (simp add: recordSuccess_def Let_def)

lemma recordSuccesses_closed:
  "state b = CLOSED \<Longrightarrow> failures b = 0 \<Longrightarrow>
     state (recordSuccesses ts b) = CLOSED \<and> failures (recordSuccesses ts b) = 0"
  unfolding recordSuccesses_def
  by (induction ts arbitrary: b) (simp_all add: recordSuccess_closed)

lemma recordSuccess_thresholds:
  "successThreshold (recordSuccess t b) = successThreshold b"
  by (simp add: recordSuccess_def transitionTo_def Let_def split: cb_state.splits)

lemma recordSuccesses_half_open:
  "state b = HALF_OPEN \<Longrightarrow> successThreshold b \<le> successes b + length ts \<Longrightarrow> 0 < length ts \<Longrightarrow>
     state (recordSuccesses ts b) = CLOSED \<and> failures (recordSuccesses ts b) = 0"
proof (induction ts arbitrary: b)
  case Nil
  then show ?case by simp
next
  case (Cons t ts)
  let ?b = "recordSuccess t b"
  have step: "recordSuccesses (t # ts) b = recordSuccesses ts ?b"
    by (simp add: recordSuccesses_def)
  show ?case
  proof (cases "successThreshold b \<le> successes b + 1")
    case True
    with Cons.prems have "state ?b = CLOSED" and "failures ?b = 0"
      by (simp_all add: recordSuccess_def transitionTo_def Let_def)
    with recordSuccesses_closed [of ?b ts] show ?thesis
      by (simp add: step)
  next
    case False
    with Cons.prems have st: "state ?b = HALF_OPEN" and su: "successes ?b = successes b + 1"
      by (simp_all add: recordSuccess_def Let_def)
    from False Cons.prems have "0 < length ts" by (cases ts) auto
    moreover from Cons.prems su
    have "successThreshold ?b \<le> successes ?b + length ts"
      by (simp add: recordSuccess_thresholds)
    ultimately show ?thesis
      using Cons.IH [OF st] by (simp add: step)
  qed
qed

lemma new_breaker_thresholds:
  "0 < failureThreshold (new_breaker opts) \<and> 0 < successThreshold (new_breaker opts)
   \<and> state (new_breaker opts) = CLOSED"
  by (simp add: new_breaker_def or_default_nat_def split: option.splits)

text \<open>
  Claim C2.  Starting from a closed breaker, after \<open>failureThreshold\<close> consecutive
  \<open>recordFailure\<close> calls the breaker is open with a scheduled \<open>nextAttempt\<close>;
  \<open>canExecute\<close> answers false and leaves the breaker unchanged at every instant before
  \<open>nextAttempt\<close>, and answers true and moves to half-open at every instant from
  \<open>nextAttempt\<close> on.  From a half-open breaker, \<open>successThreshold\<close> consecutive
  \<open>recordSuccess\<close> calls close it with the failure counter at 0, and a single
  \<open>recordFailure\<close> opens it again.  The thresholds are positive, as the constructor
  guarantees (\<open>new_breaker_thresholds\<close>).
\<close>

theorem breaker_state_machine:
  assumes "state b = CLOSED" and "0 < failureThreshold b" and "length ts = failureThreshold b"
    and "state h = HALF_OPEN" and "0 < successThreshold h" and "length us = successThreshold h"
  shows "state (recordFailures ts b) = OPEN
     \<and> (\<exists>t. nextAttempt (recordFailures ts b) = Some t
           \<and> (\<forall>now. now < t \<longrightarrow>
                 canExecute now (recordFailures ts b) = (False, recordFailures ts b))
           \<and> (\<forall>now. t \<le> now \<longrightarrow>
                 fst (canExecute now (recordFailures ts b))
                 \<and> state (snd (canExecute now (recordFailures ts b))) = HALF_OPEN))
     \<and> state (recordSuccesses us h) = CLOSED
     \<and> failures (recordSuccesses us h) = 0
     \<and> state (recordFailure u h) = OPEN"
proof -
  let ?o = "recordFailures ts b"
  from assms(1-3) recordFailures_closed [of b ts]
  obtain t where op: "state ?o = OPEN" and na: "nextAttempt ?o = Some t"
    by auto
  have before: "\<forall>now. now < t \<longrightarrow> canExecute now ?o = (False, ?o)"
    using op na by (simp add: canExecute_def)
  have after: "\<forall>now. t \<le> now \<longrightarrow>
      fst (canExecute now ?o) \<and> state (snd (canExecute now ?o)) = HALF_OPEN"
    using op na by (simp add: canExecute_def transitionTo_def Let_def)
  from assms(4-6) recordSuccesses_half_open [of h us]
  have closed: "state (recordSuccesses us h) = CLOSED \<and> failures (recordSuccesses us h) = 0"
    by simp
  from assms(4) have reopen: "state (recordFailure u h) = OPEN"
    by (simp add: recordFailure_def transitionTo_def Let_def)
  from op na before after closed reopen show ?thesis
    by blast
qed

text \<open>
  Scenario S4 as the witness: \<open>failureThreshold = 3\<close>, \<open>successThreshold = 2\<close>,
  \<open>timeout = 1000\<close> ms; three failures, then a probe at 1100 ms, two successes.
\<close>

definition s4_breaker :: breaker where
  "s4_breaker = new_breaker \<lparr> opt_failureThreshold = Some 3, opt_successThreshold = Some 2,
                              opt_timeout = Some 1000 \<rparr>"

definition s4_open :: breaker where
  "s4_open = recordFailures [0, 10, 20] s4_breaker"

definition s4_half_open :: breaker where
  "s4_half_open = snd (canExecute 1100 s4_open)"

lemma s4_open_fields:
  "state s4_open = OPEN \<and> nextAttempt s4_open = Some 1020 \<and> failures s4_open = 3
   \<and> successes s4_open = 0"
  by (simp add: s4_open_def s4_breaker_def new_breaker_def or_default_nat_def
      or_default_int_def recordFailures_def recordFailure_def transitionTo_def Let_def)

lemma s4_half_open_fields:
  "state s4_half_open = HALF_OPEN \<and> successThreshold s4_half_open = 2
   \<and> successes s4_half_open = 0"
  using s4_open_fields
  by (simp add: s4_half_open_def canExecute_def transitionTo_def Let_def s4_open_def
      s4_breaker_def new_breaker_def or_default_nat_def recordFailures_def
      recordFailure_def)

theorem breaker_state_machine_witness:
  "state s4_breaker = CLOSED \<and> failureThreshold s4_breaker = 3
   \<and> state (recordFailures [0, 10, 20] s4_breaker) = OPEN
   \<and> state s4_half_open = HALF_OPEN
   \<and> state (recordSuccesses [1110, 1120] s4_half_open) = CLOSED
   \<and> failures (recordSuccesses [1110, 1120] s4_half_open) = 0
   \<and> state (recordFailure 1110 s4_half_open) = OPEN"
proof -
  have b: "state s4_breaker = CLOSED" "0 < failureThreshold s4_breaker"
    "length [0, 10, 20 :: int] = failureThreshold s4_breaker"
    "failureThreshold s4_breaker = 3"
    by (simp_all add: s4_breaker_def new_breaker_def or_default_nat_def)
  have h: "state s4_half_open = HALF_OPEN" "0 < successThreshold s4_half_open"
    "length [1110, 1120 :: int] = successThreshold s4_half_open"
    using s4_half_open_fields by simp_all
  from breaker_state_machine [OF b(1) b(2) b(3) h(1) h(2) h(3), of 1110] b h
  show ?thesis by simp
qed

text \<open>
  Claim C10.  \<open>recordSuccess\<close> on an open breaker changes nothing but the two metrics
  counters \<open>totalCalls\<close> and \<open>successfulCalls\<close>, which go up by one: the state, the
  failure and success counters and \<open>nextAttempt\<close> are as before, so a stray success during
  the cooldown neither closes nor half-opens the breaker.
\<close>

theorem recordSuccess_open_noop:
  assumes "state b = OPEN"
  shows "recordSuccess now b =
           b\<lparr>metrics := (metrics b)\<lparr>totalCalls := totalCalls (metrics b) + 1,
                                     successfulCalls := successfulCalls (metrics b) + 1\<rparr>\<rparr>
     \<and> state (recordSuccess now b) = OPEN
     \<and> failures (recordSuccess now b) = failures b
     \<and> successes (recordSuccess now b) = successes b
     \<and> nextAttempt (recordSuccess now b) = nextAttempt b
     \<and> lastFailureTime (recordSuccess now b) = lastFailureTime b
     \<and> failedCalls (metrics (recordSuccess now b)) = failedCalls (metrics b)
     \<and> rejectedCalls (metrics (recordSuccess now b)) = rejectedCalls (metrics b)
     \<and> stateChanges (metrics (recordSuccess now b)) = stateChanges (metrics b)"
  using assms by (simp add: recordSuccess_def count_success_def Let_def)

theorem recordSuccess_open_noop_witness:
  "state s4_open = OPEN
   \<and> state (recordSuccess 500 s4_open) = OPEN
   \<and> failures (recordSuccess 500 s4_open) = 3
   \<and> successes (recordSuccess 500 s4_open) = 0
   \<and> nextAttempt (recordSuccess 500 s4_open) = Some 1020
   \<and> totalCalls (metrics (recordSuccess 500 s4_open)) = totalCalls (metrics s4_open) + 1
   \<and> successfulCalls (metrics (recordSuccess 500 s4_open))
        = successfulCalls (metrics s4_open) + 1"
proof -
  have o: "state s4_open = OPEN" using s4_open_fields by simp
  from recordSuccess_open_noop [OF o, of 500] s4_open_fields show ?thesis
    by simp
qed

section \<open>Event queue (server/services/eventQueue.js)\<close>

text \<open>
  The queue object as a record; \<open>enqueue\<close> returns its result object and the updated
  queue.  \<open>batchTimer\<close> is modelled by whether a timer is armed.  The calls into the
  metrics module (\<open>recordRejectedRequest\<close>, \<open>setEventQueueSize\<close>) are kept as a log, in
  call order.  The capacity is a natural number; the constructor's
  \<open>options.maxQueueSize || 10000\<close> replaces an absent or zero capacity by 10000.
\<close>

record 'e queue_item =
  qi_data :: 'e
  qi_timestamp :: int

record queue_stats =
  enqueued :: nat
  processed :: nat
  rejected :: nat
  batches :: nat

datatype metric_call = RecordRejectedRequest string | SetEventQueueSize nat

record 'e event_queue =
  maxQueueSize :: nat
  batchSize :: nat
  batchInterval :: nat
  queue :: "'e queue_item list"
  wsBuffer :: "'e list"
  processing :: bool
  batchTimer :: bool
  stats :: queue_stats
  metricCalls :: "metric_call list"

datatype enqueue_result =
    Rejected string nat  \<comment> \<open>\<open>{success: false, reason, queueSize}\<close>\<close>
  | Accepted nat         \<comment> \<open>\<open>{success: true, queued: true, queueSize}\<close>\<close>

definition new_event_queue :: "nat option \<Rightarrow> 'e event_queue" where
  "new_event_queue optMax =
     \<lparr> maxQueueSize = or_default_nat optMax 10000, batchSize = 100, batchInterval = 1000,
       queue = [], wsBuffer = [], processing = False, batchTimer = False,
       stats = \<lparr> enqueued = 0, processed = 0, rejected = 0, batches = 0 \<rparr>,
       metricCalls = [] \<rparr>"

definition scheduleBatch :: "'e event_queue \<Rightarrow> 'e event_queue" where
  "scheduleBatch q = q\<lparr>batchTimer := True\<rparr>"

definition enqueue :: "'e \<Rightarrow> int \<Rightarrow> 'e event_queue \<Rightarrow> enqueue_result \<times> 'e event_queue" where
  "enqueue eventData now q =
     (if length (queue q) \<ge> maxQueueSize q then
        (let q1 = q\<lparr>stats := (stats q)\<lparr>rejected := rejected (stats q) + 1\<rparr>,
                     metricCalls := metricCalls q @ [RecordRejectedRequest ''queue_full'']\<rparr>
         in (Rejected ''queue_full'' (length (queue q1)), q1))
      else
        (let q1 = q\<lparr>queue := queue q @ [\<lparr>qi_data = eventData, qi_timestamp = now\<rparr>]\<rparr>;
             q2 = q1\<lparr>stats := (stats q1)\<lparr>enqueued := enqueued (stats q1) + 1\<rparr>,
                      metricCalls := metricCalls q1 @ [SetEventQueueSize (length (queue q1))]\<rparr>;
             q3 = (if \<not> batchTimer q2 \<and> \<not> processing q2 then scheduleBatch q2 else q2)
         in (Accepted (length (queue q3)), q3)))"

text \<open>A sequence of \<open>enqueue\<close> calls, each with its event and its instant.\<close>

definition enqueue_all :: "('e \<times> int) list \<Rightarrow> 'e event_queue \<Rightarrow> 'e event_queue" where
  "enqueue_all evs q = foldl (\<lambda>q (e, t). snd (enqueue e t q)) q evs"

subsection \<open>Properties of the queue\<close>

lemma enqueue_maxQueueSize: "maxQueueSize (snd (enqueue e t q)) = maxQueueSize q"
  by (simp add: enqueue_def scheduleBatch_def Let_def)

lemma enqueue_bounded:
  "length (queue q) \<le> maxQueueSize q \<Longrightarrow>
     length (queue (snd (enqueue e t q))) \<le> maxQueueSize q"
  by (simp add: enqueue_def scheduleBatch_def Let_def)

lemma enqueue_all_bounded:
  "length (queue q) \<le> maxQueueSize q \<Longrightarrow>
     length (queue (enqueue_all evs q)) \<le> maxQueueSize q
     \<and> maxQueueSize (enqueue_all evs q) = maxQueueSize q"
  unfolding enqueue_all_def
proof (induction evs arbitrary: q)
  case Nil
  then show ?case by simp
next
  case (Cons a evs)
  obtain e t where a: "a = (e, t)" by (cases a)
  let ?q = "snd (enqueue e t q)"
  from Cons.prems have "length (queue ?q) \<le> maxQueueSize ?q"
    by (simp add: enqueue_bounded enqueue_maxQueueSize)
  from Cons.IH [OF this] show ?case
    by (simp add: a enqueue_maxQueueSize)
qed

text \<open>
  Claim C5.  From a queue within its capacity (the constructor's empty queue is), every
  sequence of \<open>enqueue\<close> calls leaves the queue length at most \<open>maxQueueSize\<close>.  An
  \<open>enqueue\<close> on a queue that holds \<open>maxQueueSize\<close> items returns the rejection
  \<open>{success: false, reason: queue_full, queueSize}\<close> with the current length and leaves
  the queue, the broadcast buffer and the timer as they were; only the \<open>rejected\<close>
  counter moves.  \<open>enqueue\<close> has no throwing branch: it is a total function whose result
  is one of the two result objects.
\<close>

theorem enqueue_bounded_queue:
  assumes "length (queue q) \<le> maxQueueSize q"
  shows "length (queue (enqueue_all evs q)) \<le> maxQueueSize q
     \<and> (length (queue q) = maxQueueSize q \<longrightarrow>
           fst (enqueue e t q) = Rejected ''queue_full'' (length (queue q))
         \<and> queue (snd (enqueue e t q)) = queue q
         \<and> wsBuffer (snd (enqueue e t q)) = wsBuffer q
         \<and> batchTimer (snd (enqueue e t q)) = batchTimer q
         \<and> processing (snd (enqueue e t q)) = processing q
         \<and> rejected (stats (snd (enqueue e t q))) = rejected (stats q) + 1
         \<and> enqueued (stats (snd (enqueue e t q))) = enqueued (stats q))"
proof -
  from assms have "length (queue (enqueue_all evs q)) \<le> maxQueueSize q"
    by (simp add: enqueue_all_bounded)
  moreover have "length (queue q) = maxQueueSize q \<longrightarrow>
           fst (enqueue e t q) = Rejected ''queue_full'' (length (queue q))
         \<and> queue (snd (enqueue e t q)) = queue q
         \<and> wsBuffer (snd (enqueue e t q)) = wsBuffer q
         \<and> batchTimer (snd (enqueue e t q)) = batchTimer q
         \<and> processing (snd (enqueue e t q)) = processing q
         \<and> rejected (stats (snd (enqueue e t q))) = rejected (stats q) + 1
         \<and> enqueued (stats (snd (enqueue e t q))) = enqueued (stats q)"
    by (simp add: enqueue_def Let_def)
  ultimately show ?thesis by blast
qed

text \<open>
  The witness: a queue of capacity 2 takes two events and rejects the third and the
  fourth; its length stays 2.
\<close>

definition q2_full :: "nat event_queue" where
  "q2_full = enqueue_all [(1, 0), (2, 5)] (new_event_queue (Some 2))"

lemma q2_full_fields: "length (queue q2_full) = 2 \<and> maxQueueSize q2_full = 2"
  by (simp add: q2_full_def enqueue_all_def enqueue_def new_event_queue_def
      or_default_nat_def scheduleBatch_def Let_def)

theorem enqueue_bounded_queue_witness:
  "length (queue q2_full) = maxQueueSize q2_full
   \<and> length (queue (enqueue_all [(3, 7), (4, 9)] q2_full)) \<le> 2
   \<and> fst (enqueue 3 7 q2_full) = Rejected ''queue_full'' 2
   \<and> queue (snd (enqueue 3 7 q2_full)) = queue q2_full"
proof -
  have le: "length (queue q2_full) \<le> maxQueueSize q2_full"
    using q2_full_fields by simp
  from enqueue_bounded_queue [OF le, of "[(3, 7), (4, 9)]" 3 7] q2_full_fields
  show ?thesis by simp
qed

section \<open>Severity scoring (services/severityScoring.js, config/services.js)\<close>

text \<open>
  JavaScript numbers are modelled by the reals, extended by the two values that the
  scorer can meet on its way: \<open>NaN\<close> and \<open>undefined\<close>.  Arithmetic on anything but two
  numbers gives \<open>NaN\<close>; every comparison with \<open>NaN\<close> or \<open>undefined\<close> is false.
  \<open>Math.round x\<close> is \<open>\<lfloor>x + 1/2\<rfloor>\<close>.
\<close>

datatype jsnum = Num real | NaN | Undefined

fun js_mul :: "jsnum \<Rightarrow> jsnum \<Rightarrow> jsnum" where
  "js_mul (Num a) (Num b) = Num (a * b)"
| "js_mul _ _ = NaN"

fun js_add :: "jsnum \<Rightarrow> jsnum \<Rightarrow> jsnum" where
  "js_add (Num a) (Num b) = Num (a + b)"
| "js_add _ _ = NaN"

fun js_div :: "jsnum \<Rightarrow> real \<Rightarrow> jsnum" where
  "js_div (Num a) n = Num (a / n)"
| "js_div _ _ = NaN"

definition math_round :: "real \<Rightarrow> real" where
  "math_round x = of_int \<lfloor>x + 1 / 2\<rfloor>"

fun js_round :: "jsnum \<Rightarrow> jsnum" where
  "js_round (Num a) = Num (math_round a)"
| "js_round _ = NaN"

fun js_min :: "jsnum \<Rightarrow> jsnum \<Rightarrow> jsnum" where
  "js_min (Num a) (Num b) = Num (min a b)"
| "js_min _ _ = NaN"

fun js_max :: "jsnum \<Rightarrow> jsnum \<Rightarrow> jsnum" where
  "js_max (Num a) (Num b) = Num (max a b)"
| "js_max _ _ = NaN"

fun js_ge :: "jsnum \<Rightarrow> real \<Rightarrow> bool" where
  "js_ge (Num a) b = (a \<ge> b)"
| "js_ge _ _ = False"

fun js_gt :: "jsnum \<Rightarrow> real \<Rightarrow> bool" where
  "js_gt (Num a) b = (a > b)"
| "js_gt _ _ = False"

text \<open>
  \<open>String.prototype.toLowerCase\<close> on ASCII text: a capital letter (codes 65 to 90) gets
  bit 5 set, which adds 32 to its code.
\<close>

definition lower_char :: "char \<Rightarrow> char" where
  "lower_char c =
     (let n = (of_char c :: nat)
      in if 65 \<le> n \<and> n \<le> 90
         then (case c of Char b0 b1 b2 b3 b4 b5 b6 b7 \<Rightarrow> Char b0 b1 b2 b3 b4 True b6 b7)
         else c)"

definition toLowerCase :: "string \<Rightarrow> string" where
  "toLowerCase s = map lower_char s"

text \<open>
  The table \<open>criticalServices\<close> is an object literal, and the scorer reads it with
  \<open>criticalServices[name]\<close>.  Such a read finds the table's own entries, and otherwise
  the properties every object inherits from \<open>Object.prototype\<close>; only then is it
  \<open>undefined\<close>.
\<close>

definition criticalServices :: "(string \<times> real) list" where
  "criticalServices =
     [(''payment-service'', 2.0), (''auth-service'', 1.8), (''database'', 2.0),
      (''api-gateway'', 1.5), (''order-service'', 1.6), (''inventory-service'', 1.4)]"

definition objectPrototypeKeys :: "string list" where
  "objectPrototypeKeys =
     [''constructor'', ''__proto__'', ''hasOwnProperty'', ''isPrototypeOf'',
      ''propertyIsEnumerable'', ''toString'', ''toLocaleString'', ''valueOf'',
      ''__defineGetter__'', ''__defineSetter__'', ''__lookupGetter__'',
      ''__lookupSetter__'']"

datatype service_config =
    OwnEntry real      \<comment> \<open>an entry of the table, with its multiplier\<close>
  | InheritedProperty  \<comment> \<open>a truthy value of \<open>Object.prototype\<close>, with no multiplier\<close>
  | NoEntry            \<comment> \<open>\<open>undefined\<close>\<close>

definition criticalServices_get :: "string \<Rightarrow> service_config" where
  "criticalServices_get key =
     (case map_of criticalServices key of
        Some m \<Rightarrow> OwnEntry m
      | None \<Rightarrow> if key \<in> set objectPrototypeKeys then InheritedProperty else NoEntry)"

text \<open>The configuration \<open>severityConfig\<close>.\<close>

definition baseScores :: "int \<Rightarrow> real option" where
  "baseScores level =
     (if level = 1 then Some 10 else if level = 2 then Some 25 else if level = 3 then Some 50
      else if level = 4 then Some 75 else if level = 5 then Some 100 else None)"

definition freq_normal :: real where "freq_normal = 1.0"
definition freq_elevated :: real where "freq_elevated = 1.3"
definition freq_high :: real where "freq_high = 1.6"
definition freq_critical :: real where "freq_critical = 2.0"

definition spike_elevated :: real where "spike_elevated = 1.5"
definition spike_high :: real where "spike_high = 2.5"
definition spike_critical :: real where "spike_critical = 4.0"

definition incident_medium :: real where "incident_medium = 50"
definition incident_high :: real where "incident_high = 75"
definition incident_critical :: real where "incident_critical = 90"

record scored_event =
  ev_service :: string
  ev_severity :: real

definition getBaseScore :: "real \<Rightarrow> real" where
  "getBaseScore severity =
     (let level = min (max \<lfloor>severity + 1 / 2\<rfloor> 1) 5
      in case baseScores level of
           Some v \<Rightarrow> v
         | None \<Rightarrow> (case baseScores 1 of Some v \<Rightarrow> v | None \<Rightarrow> 0))"

definition getServiceMultiplier :: "string \<Rightarrow> jsnum" where
  "getServiceMultiplier serviceName =
     (case criticalServices_get (toLowerCase serviceName) of
        OwnEntry m \<Rightarrow> Num m
      | InheritedProperty \<Rightarrow> Undefined
      | NoEntry \<Rightarrow> Num 1.0)"

definition getFrequencyMultiplier :: "real \<Rightarrow> real \<Rightarrow> real \<times> string" where
  "getFrequencyMultiplier currentRate baselineRate =
     (if baselineRate = 0 then
        (if currentRate > 0 then (freq_elevated, ''elevated'') else (freq_normal, ''normal''))
      else
        (let ratio = currentRate / baselineRate
         in if ratio \<ge> spike_critical then (freq_critical, ''critical'')
            else if ratio \<ge> spike_high then (freq_high, ''high'')
            else if ratio \<ge> spike_elevated then (freq_elevated, ''elevated'')
            else (freq_normal, ''normal'')))"

record event_score =
  baseScore :: real
  serviceMultiplier :: jsnum
  frequencyMultiplier :: real
  frequencyLevel :: string
  finalScore :: jsnum
  isCriticalService :: bool
  hasSpike :: bool

definition scoreEvent :: "'a scored_event_scheme \<Rightarrow> real \<Rightarrow> real \<Rightarrow> event_score" where
  "scoreEvent event currentRate baselineRate =
     (let base = getBaseScore (ev_severity event);
          sm = getServiceMultiplier (ev_service event);
          (fm, fl) = getFrequencyMultiplier currentRate baselineRate
      in \<lparr> baseScore = base,
           serviceMultiplier = sm,
           frequencyMultiplier = fm,
           frequencyLevel = fl,
           finalScore = js_min (js_round (js_mul (js_mul (Num base) sm) (Num fm))) (Num 100),
           isCriticalService = js_gt sm 1.0,
           hasSpike = (fm > 1.0) \<rparr>)"

text \<open>
  The spike context of a service, \<open>spikeData[service]\<close>: the two fields the scorer
  reads, each possibly absent.  \<open>x || 0\<close> reads an absent field as 0.
\<close>

record spike_entry =
  sp_currentCount :: "real option"
  sp_mean :: "real option"

definition or_zero :: "real option \<Rightarrow> real" where
  "or_zero v = (case v of None \<Rightarrow> 0 | Some x \<Rightarrow> x)"

definition getSeverityLevel :: "jsnum \<Rightarrow> nat" where
  "getSeverityLevel score =
     (if js_ge score 90 then 5 else if js_ge score 75 then 4 else if js_ge score 50 then 3
      else if js_ge score 25 then 2 else 1)"

definition getClassification :: "jsnum \<Rightarrow> string" where
  "getClassification score =
     (if js_ge score incident_critical then ''critical''
      else if js_ge score incident_high then ''high''
      else if js_ge score incident_medium then ''medium''
      else ''low'')"

record incident_score =
  compositeScore :: jsnum
  severityLevel :: nat
  classification :: string
  eventCount :: nat
  maxEventScore :: jsnum
  avgEventScore :: jsnum

text \<open>
  \<open>Math.max(...xs)\<close> on a non-empty list, \<open>reduce\<close> with \<open>+\<close> from 0, and
  \<open>Math.log10\<close> on the event count.
\<close>

fun math_max_list :: "jsnum list \<Rightarrow> jsnum" where
  "math_max_list [] = NaN"
| "math_max_list [x] = js_max x x"
| "math_max_list (x # xs) = js_max x (math_max_list xs)"

definition sum_scores :: "jsnum list \<Rightarrow> jsnum" where
  "sum_scores xs = foldl js_add (Num 0) xs"

definition countFactor :: "nat \<Rightarrow> real" where
  "countFactor n = min (1 + log 10 (real n) * 0.2) 1.5"

definition scoreIncident :: "'a scored_event_scheme list \<Rightarrow> (string \<Rightarrow> spike_entry option) \<Rightarrow> incident_score" where
  "scoreIncident events spikeData =
     (if events = [] then
        \<lparr> compositeScore = Num 0, severityLevel = 1, classification = ''low'',
          eventCount = 0, maxEventScore = Undefined, avgEventScore = Undefined \<rparr>
      else
        (let eventScores = map (\<lambda>event.
               (case spikeData (ev_service event) of
                  None \<Rightarrow> scoreEvent event 0 0
                | Some sp \<Rightarrow> scoreEvent event (or_zero (sp_currentCount sp)) (or_zero (sp_mean sp))))
               events;
             finals = map finalScore eventScores;
             maxScore = math_max_list finals;
             avgScore = js_div (sum_scores finals) (real (length eventScores));
             cf = countFactor (length events);
             composite = js_min
               (js_round (js_mul (js_add (js_mul maxScore (Num 0.6)) (js_mul avgScore (Num 0.4)))
                                 (Num cf)))
               (Num 100)
         in \<lparr> compositeScore = composite,
              severityLevel = getSeverityLevel composite,
              classification = getClassification composite,
              eventCount = length events,
              maxEventScore = maxScore,
              avgEventScore = js_round avgScore \<rparr>))"

subsection \<open>Properties of the scorer\<close>

text \<open>
  Claim C3 (scenario S1).  The event \<open>{service: "payment-service", severity: 4}\<close> scored
  with \<open>currentRate = 50\<close> and \<open>baselineRate = 10\<close> has base score 75, service multiplier
  2.0, frequency multiplier 2.0 at level critical (the ratio 5 is at least 4.0) and final
  score \<open>min(round(75 * 2.0 * 2.0), 100) = 100\<close>.
\<close>

theorem scoreEvent_S1:
  "scoreEvent \<lparr>ev_service = ''payment-service'', ev_severity = 4\<rparr> 50 10
     = \<lparr> baseScore = 75, serviceMultiplier = Num 2, frequencyMultiplier = 2,
         frequencyLevel = ''critical'', finalScore = Num 100,
         isCriticalService = True, hasSpike = True \<rparr>
   \<and> (50 :: real) / 10 \<ge> spike_critical
   \<and> min (math_round (75 * 2 * 2)) 100 = (100 :: real)"
  by (simp add: scoreEvent_def getBaseScore_def getServiceMultiplier_def
      getFrequencyMultiplier_def criticalServices_get_def criticalServices_def
      toLowerCase_def lower_char_def baseScores_def Let_def math_round_def
      freq_critical_def spike_critical_def)

text \<open>
  The composite score is within 0..100 whenever no event's service name, in lower case,
  is a property that the table \<open>criticalServices\<close> inherits.
\<close>

definition in_score_range :: "jsnum \<Rightarrow> bool" where
  "in_score_range x = (case x of Num r \<Rightarrow> 0 \<le> r \<and> r \<le> 100 | _ \<Rightarrow> False)"

definition own_or_absent :: "'a scored_event_scheme \<Rightarrow> bool" where
  "own_or_absent e = (criticalServices_get (toLowerCase (ev_service e)) \<noteq> InheritedProperty)"

lemma math_round_nonneg: "0 \<le> x \<Longrightarrow> 0 \<le> math_round x"
  by (simp add: math_round_def)

lemma getBaseScore_nonneg: "0 \<le> getBaseScore s"
  by (simp add: getBaseScore_def baseScores_def Let_def)

lemma getFrequencyMultiplier_nonneg: "0 \<le> fst (getFrequencyMultiplier c b)"
  by (simp add: getFrequencyMultiplier_def Let_def freq_normal_def freq_elevated_def
      freq_high_def freq_critical_def)

lemma getServiceMultiplier_cases:
  "criticalServices_get (toLowerCase s) \<noteq> InheritedProperty \<Longrightarrow>
     \<exists>m. getServiceMultiplier s = Num m \<and> 0 \<le> m"
  by (auto simp: getServiceMultiplier_def criticalServices_get_def criticalServices_def
      split: option.splits if_splits)

lemma finalScore_in_range:
  assumes "own_or_absent e"
  shows "in_score_range (finalScore (scoreEvent e c b))"
proof -
  from assms getServiceMultiplier_cases [of "ev_service e"]
  obtain m where m: "getServiceMultiplier (ev_service e) = Num m" "0 \<le> m"
    by (auto simp: own_or_absent_def)
  obtain fm fl where f: "getFrequencyMultiplier c b = (fm, fl)"
    by (cases "getFrequencyMultiplier c b")
  with getFrequencyMultiplier_nonneg [of c b] have fm: "0 \<le> fm" by simp
  have "0 \<le> getBaseScore (ev_severity e) * m * fm"
    using getBaseScore_nonneg m(2) fm by simp
  then have "0 \<le> math_round (getBaseScore (ev_severity e) * m * fm)"
    by (rule math_round_nonneg)
  then show ?thesis
    by (simp add: scoreEvent_def m f in_score_range_def Let_def)
qed

lemma math_max_list_in_range:
  "xs \<noteq> [] \<Longrightarrow> list_all in_score_range xs \<Longrightarrow> in_score_range (math_max_list xs)"
  by (induction xs rule: math_max_list.induct)
     (auto simp: in_score_range_def split: jsnum.splits)

lemma foldl_js_add_range:
  "0 \<le> a \<Longrightarrow> list_all in_score_range xs \<Longrightarrow>
     \<exists>s. foldl js_add (Num a) xs = Num s \<and> 0 \<le> s \<and> s \<le> a + 100 * real (length xs)"
proof (induction xs arbitrary: a)
  case Nil
  then show ?case by simp
next
  case (Cons x xs)
  then obtain r where r: "x = Num r" "0 \<le> r" "r \<le> 100"
    by (auto simp: in_score_range_def split: jsnum.splits)
  from Cons.prems r have "0 \<le> a + r" and "list_all in_score_range xs" by simp_all
  from Cons.IH [OF this] obtain s where
    "foldl js_add (Num (a + r)) xs = Num s" "0 \<le> s" "s \<le> a + r + 100 * real (length xs)"
    by blast
  with r show ?case by (auto simp: algebra_simps)
qed

lemma countFactor_nonneg: "0 < n \<Longrightarrow> 0 \<le> countFactor n"
  by (simp add: countFactor_def min_def)

lemma scoreIncident_bounds:
  assumes "list_all own_or_absent events"
  shows "in_score_range (compositeScore (scoreIncident events spikeData))"
proof (cases "events = []")
  case True
  then show ?thesis by (simp add: scoreIncident_def in_score_range_def)
next
  case False
  let ?scores = "map (\<lambda>event.
               (case spikeData (ev_service event) of
                  None \<Rightarrow> scoreEvent event 0 0
                | Some sp \<Rightarrow> scoreEvent event (or_zero (sp_currentCount sp)) (or_zero (sp_mean sp))))
               events"
  let ?finals = "map finalScore ?scores"
  have all: "list_all in_score_range ?finals"
    using assms by (auto simp: list_all_iff finalScore_in_range split: option.splits)
  from False have ne: "?finals \<noteq> []" by simp
  from math_max_list_in_range [OF ne all]
  obtain mx where mx: "math_max_list ?finals = Num mx" "0 \<le> mx"
    by (auto simp: in_score_range_def split: jsnum.splits)
  from foldl_js_add_range [of 0 ?finals] all
  obtain sm where sm: "sum_scores ?finals = Num sm" "0 \<le> sm"
    by (auto simp: sum_scores_def)
  from False have cf: "0 \<le> countFactor (length events)"
    by (simp add: countFactor_nonneg)
  have "0 \<le> (mx * 0.6 + sm / real (length events) * 0.4) * countFactor (length events)"
    using mx(2) sm(2) cf by simp
  then have "0 \<le> math_round
      ((mx * 0.6 + sm / real (length events) * 0.4) * countFactor (length events))"
    by (rule math_round_nonneg)
  with False show ?thesis
    by (simp add: scoreIncident_def Let_def mx sm in_score_range_def del: map_map)
qed

lemma getSeverityLevel_range: "1 \<le> getSeverityLevel x \<and> getSeverityLevel x \<le> 5"
  by (simp add: getSeverityLevel_def)

lemma scoreIncident_empty:
  "compositeScore (scoreIncident [] sd) = Num 0 \<and> severityLevel (scoreIncident [] sd) = 1
   \<and> classification (scoreIncident [] sd) = ''low''"
  by (simp add: scoreIncident_def)

text \<open>
  Claim C8.  The score is a function of the event list and the spike context alone, the
  severity level is always within 1..5 (\<open>getSeverityLevel_range\<close>), the empty list gives
  composite 0, level 1, low (\<open>scoreIncident_empty\<close>), and the composite lies within
  0..100 for services that are entries of the table or absent from it
  (\<open>scoreIncident_bounds\<close>).  For a service named \<open>constructor\<close> the table read finds the
  inherited property, the multiplier is \<open>undefined\<close>, and the composite score of a
  severity-3 event is \<open>NaN\<close>, not a number within 0..100; the level falls to 1 and the
  classification to low.
\<close>

theorem scoreIncident_constructor_NaN:
  "compositeScore (scoreIncident [\<lparr>ev_service = ''constructor'', ev_severity = 3\<rparr>] (\<lambda>_. None))
     = NaN
   \<and> \<not> in_score_range
         (compositeScore (scoreIncident [\<lparr>ev_service = ''constructor'', ev_severity = 3\<rparr>] (\<lambda>_. None)))
   \<and> severityLevel (scoreIncident [\<lparr>ev_service = ''constructor'', ev_severity = 3\<rparr>] (\<lambda>_. None))
     = 1
   \<and> classification (scoreIncident [\<lparr>ev_service = ''constructor'', ev_severity = 3\<rparr>] (\<lambda>_. None))
     = ''low''"
  by (simp add: scoreIncident_def scoreEvent_def getBaseScore_def getServiceMultiplier_def
      getFrequencyMultiplier_def criticalServices_get_def criticalServices_def
      objectPrototypeKeys_def sum_scores_def getSeverityLevel_def getClassification_def
      toLowerCase_def lower_char_def baseScores_def Let_def math_round_def in_score_range_def)

section \<open>Spike detection (server/services/spikeDetection.js)\<close>











subsection \<open>Properties of the spike detector\<close>






section \<open>Incidents and the PATCH handler (models/Incident.js, controllers/incidentController.js)\<close>

text \<open>
  The fields that the incident schema declares, with the document's \<open>_id\<close> and its
  creation time.  Object ids are natural numbers, instants are integers (milliseconds),
  and a field that can hold \<open>null\<close> is an option.
\<close>

record incident =
  inc_oid :: nat
  incidentId :: string
  eventIds :: "nat list"
  summary :: string
  aiGeneratedSummary :: string
  status :: string
  severityScore :: nat
  affectedServices :: "string list"
  rootCause :: "string option"
  resolution :: "string option"
  assignedTo :: "string option"
  acknowledgedAt :: "int option"
  resolvedAt :: "int option"
  createdAt :: int

text \<open>
  A field of the request body is absent (\<open>undefined\<close>), \<open>null\<close>, or a string.  The handler
  tests some fields for truthiness: of these values only a non-empty string is truthy.
\<close>

datatype body_field = Absent | JNull | JStr string

fun truthy :: "body_field \<Rightarrow> bool" where
  "truthy (JStr s) = (s \<noteq> [])"
| "truthy _ = False"

fun stored :: "body_field \<Rightarrow> string option" where
  "stored (JStr s) = Some s"
| "stored _ = None"

record patch_body =
  pb_status :: body_field
  pb_assignedTo :: body_field
  pb_resolution :: body_field
  pb_rootCause :: body_field

datatype api_error = NotFound | ValidationFailed

definition status_enum :: "string list" where
  "status_enum = [''active'', ''investigating'', ''resolved'']"

text \<open>The assignments of the handler, in the order of the source.\<close>

definition set_status :: "body_field \<Rightarrow> int \<Rightarrow> incident \<Rightarrow> incident" where
  "set_status st now inc =
     (if truthy st then
        (let inc1 = inc\<lparr>status := (case st of JStr s \<Rightarrow> s | _ \<Rightarrow> [])\<rparr>
         in if st = JStr ''resolved'' \<and> resolvedAt inc1 = None
            then inc1\<lparr>resolvedAt := Some now\<rparr> else inc1)
      else inc)"

definition set_assignedTo :: "body_field \<Rightarrow> int \<Rightarrow> incident \<Rightarrow> incident" where
  "set_assignedTo a now inc =
     (if a \<noteq> Absent then
        (let inc1 = inc\<lparr>assignedTo := stored a\<rparr>
         in if truthy a \<and> acknowledgedAt inc1 = None
            then inc1\<lparr>acknowledgedAt := Some now\<rparr> else inc1)
      else inc)"

definition set_resolution :: "body_field \<Rightarrow> incident \<Rightarrow> incident" where
  "set_resolution r inc = (if r \<noteq> Absent then inc\<lparr>resolution := stored r\<rparr> else inc)"

definition set_rootCause :: "body_field \<Rightarrow> incident \<Rightarrow> incident" where
  "set_rootCause r inc = (if r \<noteq> Absent then inc\<lparr>rootCause := stored r\<rparr> else inc)"

definition apply_patch :: "patch_body \<Rightarrow> int \<Rightarrow> incident \<Rightarrow> incident" where
  "apply_patch body now inc =
     set_rootCause (pb_rootCause body)
       (set_resolution (pb_resolution body)
         (set_assignedTo (pb_assignedTo body) now
           (set_status (pb_status body) now inc)))"

text \<open>
  \<open>Incident.findOne({incidentId})\<close> and \<open>incident.save()\<close>: the save validates the status
  against the schema's enumeration and replaces the stored document.
\<close>

definition findOne_incident :: "incident list \<Rightarrow> string \<Rightarrow> incident option" where
  "findOne_incident store iid = find (\<lambda>i. incidentId i = iid) store"

definition save_incident :: "incident \<Rightarrow> incident list \<Rightarrow> incident list" where
  "save_incident inc store = map (\<lambda>i. if inc_oid i = inc_oid inc then inc else i) store"

definition updateIncident_handler ::
  "incident list \<Rightarrow> string \<Rightarrow> patch_body \<Rightarrow> int \<Rightarrow> api_error + (incident \<times> incident list)" where
  "updateIncident_handler store iid body now =
     (case findOne_incident store iid of
        None \<Rightarrow> Inl NotFound
      | Some inc \<Rightarrow>
          (let inc1 = apply_patch body now inc
           in if status inc1 \<in> set status_enum
              then Inr (inc1, save_incident inc1 store)
              else Inl ValidationFailed))"

subsection \<open>Properties of the PATCH handler\<close>

lemma apply_patch_frame:
  "inc_oid (apply_patch body now inc) = inc_oid inc
   \<and> incidentId (apply_patch body now inc) = incidentId inc
   \<and> eventIds (apply_patch body now inc) = eventIds inc
   \<and> summary (apply_patch body now inc) = summary inc
   \<and> aiGeneratedSummary (apply_patch body now inc) = aiGeneratedSummary inc
   \<and> severityScore (apply_patch body now inc) = severityScore inc
   \<and> affectedServices (apply_patch body now inc) = affectedServices inc
   \<and> createdAt (apply_patch body now inc) = createdAt inc"
  by (simp add: apply_patch_def set_rootCause_def set_resolution_def set_assignedTo_def
      set_status_def Let_def)

lemma apply_patch_resolved:
  "pb_status body = JStr ''resolved'' \<Longrightarrow>
     status (apply_patch body now inc) = ''resolved''
     \<and> resolvedAt (apply_patch body now inc)
        = (case resolvedAt inc of None \<Rightarrow> Some now | Some t \<Rightarrow> Some t)"
  by (simp add: apply_patch_def set_rootCause_def set_resolution_def set_assignedTo_def
      set_status_def Let_def split: option.splits)

lemma apply_patch_assigned:
  "pb_assignedTo body = JStr a \<Longrightarrow> a \<noteq> [] \<Longrightarrow>
     assignedTo (apply_patch body now inc) = Some a
     \<and> acknowledgedAt (apply_patch body now inc)
        = (case acknowledgedAt inc of None \<Rightarrow> Some now | Some t \<Rightarrow> Some t)"
  by (simp add: apply_patch_def set_rootCause_def set_resolution_def set_assignedTo_def
      set_status_def Let_def split: option.splits)

text \<open>
  Claim C9, as the code has it.  For an existing incident and a PATCH that the schema
  accepts, the handler answers with the patched incident and saves it.  A status of
  \<open>resolved\<close> sets \<open>resolvedAt\<close> to the current instant when it was not set, and keeps it
  otherwise.  An \<open>assignedTo\<close> that is a non-empty string sets \<open>acknowledgedAt\<close> to the
  current instant when it was not set, and keeps it otherwise.  The declared fields
  outside \<open>status\<close>, \<open>assignedTo\<close>, \<open>resolution\<close>, \<open>rootCause\<close>, \<open>resolvedAt\<close> and
  \<open>acknowledgedAt\<close> are as before.
\<close>

theorem patch_side_effects:
  assumes "findOne_incident store iid = Some inc"
    and "status (apply_patch body now inc) \<in> set status_enum"
  shows "\<exists>inc'. updateIncident_handler store iid body now = Inr (inc', save_incident inc' store)
     \<and> (pb_status body = JStr ''resolved'' \<longrightarrow>
           status inc' = ''resolved''
           \<and> resolvedAt inc' = (case resolvedAt inc of None \<Rightarrow> Some now | Some t \<Rightarrow> Some t))
     \<and> (\<forall>a. pb_assignedTo body = JStr a \<and> a \<noteq> [] \<longrightarrow>
           assignedTo inc' = Some a
           \<and> acknowledgedAt inc' = (case acknowledgedAt inc of None \<Rightarrow> Some now | Some t \<Rightarrow> Some t))
     \<and> inc_oid inc' = inc_oid inc
     \<and> incidentId inc' = incidentId inc
     \<and> eventIds inc' = eventIds inc
     \<and> summary inc' = summary inc
     \<and> aiGeneratedSummary inc' = aiGeneratedSummary inc
     \<and> severityScore inc' = severityScore inc
     \<and> affectedServices inc' = affectedServices inc
     \<and> createdAt inc' = createdAt inc"
proof -
  let ?i = "apply_patch body now inc"
  from assms have "updateIncident_handler store iid body now = Inr (?i, save_incident ?i store)"
    by (simp add: updateIncident_handler_def Let_def)
  moreover have "pb_status body = JStr ''resolved'' \<longrightarrow>
           status ?i = ''resolved''
           \<and> resolvedAt ?i = (case resolvedAt inc of None \<Rightarrow> Some now | Some t \<Rightarrow> Some t)"
    using apply_patch_resolved [of body now inc] by blast
  moreover have "\<forall>a. pb_assignedTo body = JStr a \<and> a \<noteq> [] \<longrightarrow>
           assignedTo ?i = Some a
           \<and> acknowledgedAt ?i = (case acknowledgedAt inc of None \<Rightarrow> Some now | Some t \<Rightarrow> Some t)"
    using apply_patch_assigned [of body _ now inc] by blast
  ultimately show ?thesis
    using apply_patch_frame [of body now inc] by blast
qed

text \<open>An active, unassigned incident for the witness and the counterexample.\<close>

definition inc0 :: incident where
  "inc0 = \<lparr> inc_oid = 7, incidentId = ''inc_a'', eventIds = [1, 2], summary = ''2 events'',
            aiGeneratedSummary = [], status = ''active'', severityScore = 3,
            affectedServices = [''database''], rootCause = Some [], resolution = Some [],
            assignedTo = None, acknowledgedAt = None, resolvedAt = None, createdAt = 100 \<rparr>"

definition body_resolve :: patch_body where
  "body_resolve = \<lparr> pb_status = JStr ''resolved'', pb_assignedTo = JStr ''dana'',
                    pb_resolution = Absent, pb_rootCause = Absent \<rparr>"

theorem patch_side_effects_witness:
  "findOne_incident [inc0] ''inc_a'' = Some inc0
   \<and> status (apply_patch body_resolve 5000 inc0) \<in> set status_enum
   \<and> updateIncident_handler [inc0] ''inc_a'' body_resolve 5000
       = Inr (inc0\<lparr>status := ''resolved'', assignedTo := Some ''dana'',
                   acknowledgedAt := Some 5000, resolvedAt := Some 5000\<rparr>,
              [inc0\<lparr>status := ''resolved'', assignedTo := Some ''dana'',
                    acknowledgedAt := Some 5000, resolvedAt := Some 5000\<rparr>])"
proof -
  have f: "findOne_incident [inc0] ''inc_a'' = Some inc0"
    by (simp add: findOne_incident_def inc0_def)
  have p: "apply_patch body_resolve 5000 inc0
      = inc0\<lparr>status := ''resolved'', assignedTo := Some ''dana'',
              acknowledgedAt := Some 5000, resolvedAt := Some 5000\<rparr>"
    by (simp add: apply_patch_def set_rootCause_def set_resolution_def set_assignedTo_def
        set_status_def Let_def body_resolve_def inc0_def)
  have v: "status (apply_patch body_resolve 5000 inc0) \<in> set status_enum"
    by (simp add: p status_enum_def)
  from patch_side_effects [OF f v] obtain inc' where
    "updateIncident_handler [inc0] ''inc_a'' body_resolve 5000 = Inr (inc', save_incident inc' [inc0])"
    by blast
  moreover have "updateIncident_handler [inc0] ''inc_a'' body_resolve 5000
      = Inr (apply_patch body_resolve 5000 inc0,
             save_incident (apply_patch body_resolve 5000 inc0) [inc0])"
    using f v by (simp add: updateIncident_handler_def Let_def)
  ultimately show ?thesis
    using f v p by (simp add: save_incident_def inc0_def)
qed

text \<open>
  The claim as stated fails for an \<open>assignedTo\<close> that is the empty string: it is not
  \<open>null\<close> and it is stored, but it is falsy, so \<open>acknowledgedAt\<close> stays unset.
\<close>

definition body_assign_empty :: patch_body where
  "body_assign_empty = \<lparr> pb_status = Absent, pb_assignedTo = JStr [],
                         pb_resolution = Absent, pb_rootCause = Absent \<rparr>"

theorem patch_assignedTo_empty_counterexample:
  "updateIncident_handler [inc0] ''inc_a'' body_assign_empty 5000
     = Inr (inc0\<lparr>assignedTo := Some []\<rparr>, [inc0\<lparr>assignedTo := Some []\<rparr>])
   \<and> assignedTo (inc0\<lparr>assignedTo := Some []\<rparr>) \<noteq> None
   \<and> acknowledgedAt inc0 = None
   \<and> acknowledgedAt (inc0\<lparr>assignedTo := Some []\<rparr>) = None"
  by (simp add: updateIncident_handler_def findOne_incident_def apply_patch_def
      set_rootCause_def set_resolution_def set_assignedTo_def set_status_def Let_def
      body_assign_empty_def inc0_def status_enum_def save_incident_def)

section \<open>AI client retry loop (services/aiService.js)\<close>

text \<open>
  \<open>callWithRetry\<close> is a loop over attempts with an HTTP request in its body.  The requests'
  outcomes are an argument: \<open>outcomes k\<close> is what the request of attempt \<open>k\<close> does, a parsed
  response or an error with its \<open>statusCode\<close> (absent for a transport error).
  \<open>Math.random()\<close> is an argument too: \<open>rnd k\<close> is the draw of the sleep after attempt
  \<open>k\<close>.  The run records every request made and every sleep, with the argument passed
  to \<open>sleep\<close> and the delay slept, in milliseconds.
\<close>

record ai_config =
  maxRetries :: nat
  baseDelay :: real
  maxDelay :: real

definition default_ai_config :: ai_config where
  "default_ai_config = \<lparr> maxRetries = 3, baseDelay = 1000, maxDelay = 30000 \<rparr>"

datatype outcome = Response | Failure "nat option"

datatype call_result = Returned nat | Thrown "nat option option"

record retry_run =
  rr_result :: call_result
  rr_requests :: nat
  rr_sleeps :: "(nat \<times> real) list"

definition backoff :: "ai_config \<Rightarrow> nat \<Rightarrow> real" where
  "backoff cfg attempt = min (baseDelay cfg * 2 ^ attempt) (maxDelay cfg)"

definition sleep :: "ai_config \<Rightarrow> nat \<Rightarrow> real \<Rightarrow> real" where
  "sleep cfg attempt r = (let delay = backoff cfg attempt; jitter = delay * 0.1 * r in delay + jitter)"

function retry_loop ::
  "ai_config \<Rightarrow> (nat \<Rightarrow> outcome) \<Rightarrow> (nat \<Rightarrow> real) \<Rightarrow> nat \<Rightarrow> nat option option
     \<Rightarrow> (nat \<times> real) list \<Rightarrow> retry_run" where
  "retry_loop cfg outcomes rnd attempt lastError slept =
     (if attempt < maxRetries cfg then
        (case outcomes attempt of
           Response \<Rightarrow>
             \<lparr> rr_result = Returned (attempt + 1), rr_requests = attempt + 1, rr_sleeps = slept \<rparr>
         | Failure code \<Rightarrow>
             (if code = Some 401 \<or> code = Some 403 then
                \<lparr> rr_result = Thrown (Some code), rr_requests = attempt + 1, rr_sleeps = slept \<rparr>
              else if code = Some 429 then
                retry_loop cfg outcomes rnd (attempt + 1) (Some code)
                  (slept @ [(attempt + 2, sleep cfg (attempt + 2) (rnd attempt))])
              else if int attempt < int (maxRetries cfg) - 1 then
                retry_loop cfg outcomes rnd (attempt + 1) (Some code)
                  (slept @ [(attempt, sleep cfg attempt (rnd attempt))])
              else
                retry_loop cfg outcomes rnd (attempt + 1) (Some code) slept))
      else
        \<lparr> rr_result = Thrown lastError, rr_requests = attempt, rr_sleeps = slept \<rparr>)"
  by pat_completeness auto
termination
  by (relation "measure (\<lambda>(cfg, outcomes, rnd, attempt, lastError, slept). maxRetries cfg - attempt)")
     auto

declare retry_loop.simps [simp del]

definition callWithRetry :: "ai_config \<Rightarrow> (nat \<Rightarrow> outcome) \<Rightarrow> (nat \<Rightarrow> real) \<Rightarrow> retry_run" where
  "callWithRetry cfg outcomes rnd = retry_loop cfg outcomes rnd 0 None []"

subsection \<open>Properties of the retry loop\<close>

text \<open>
  An outcome after which the loop goes on, the attempts that the loop reaches, and a
  sleep whose delay is the capped exponential backoff plus a jitter below a tenth of it.
\<close>

fun retryable :: "outcome \<Rightarrow> bool" where
  "retryable Response = False"
| "retryable (Failure code) = (code \<noteq> Some 401 \<and> code \<noteq> Some 403)"

definition reaches :: "(nat \<Rightarrow> outcome) \<Rightarrow> nat \<Rightarrow> bool" where
  "reaches outcomes k = list_all (\<lambda>j. retryable (outcomes j)) [0..<k]"

definition jittered :: "ai_config \<Rightarrow> nat \<times> real \<Rightarrow> bool" where
  "jittered cfg p = (backoff cfg (fst p) \<le> snd p \<and> snd p < backoff cfg (fst p) * 1.1)"

lemma backoff_pos: "0 < baseDelay cfg \<Longrightarrow> 0 < maxDelay cfg \<Longrightarrow> 0 < backoff cfg k"
  by (simp add: backoff_def)

lemma sleep_jittered:
  assumes "0 < baseDelay cfg" "0 < maxDelay cfg" "0 \<le> r" "r < 1"
  shows "jittered cfg (k, sleep cfg k r)"
proof -
  from assms have p: "0 < backoff cfg k" by (simp add: backoff_pos)
  from p assms(3) have "0 \<le> backoff cfg k * 0.1 * r" by simp
  moreover from p assms(4) have "backoff cfg k * 0.1 * r < backoff cfg k * 0.1" by simp
  ultimately show ?thesis
    by (simp add: jittered_def sleep_def Let_def)
qed

lemma retry_loop_requests:
  "attempt \<le> maxRetries cfg \<Longrightarrow>
     rr_requests (retry_loop cfg outcomes rnd attempt lastError slept) \<le> maxRetries cfg"
proof (induction cfg outcomes rnd attempt lastError slept rule: retry_loop.induct)
  case (1 cfg outcomes rnd attempt lastError slept)
  show ?case
  proof (cases "attempt < maxRetries cfg")
    case False
    with "1.prems" show ?thesis by (simp add: retry_loop.simps)
  next
    case True
    show ?thesis
    proof (cases "outcomes attempt")
      case Response
      with True show ?thesis by (simp add: retry_loop.simps)
    next
      case (Failure code)
      with True "1.IH" show ?thesis
        by (subst retry_loop.simps) (auto simp: Suc_leI)
    qed
  qed
qed

lemma retry_loop_sleeps:
  "0 < baseDelay cfg \<Longrightarrow> 0 < maxDelay cfg \<Longrightarrow> \<forall>k. 0 \<le> rnd k \<and> rnd k < 1 \<Longrightarrow>
     list_all (jittered cfg) slept \<Longrightarrow>
     list_all (jittered cfg) (rr_sleeps (retry_loop cfg outcomes rnd attempt lastError slept))"
proof (induction cfg outcomes rnd attempt lastError slept rule: retry_loop.induct)
  case (1 cfg outcomes rnd attempt lastError slept)
  from "1.prems" have j: "\<And>k. jittered cfg (k, sleep cfg k (rnd attempt))"
    by (simp add: sleep_jittered)
  show ?case
  proof (cases "attempt < maxRetries cfg")
    case False
    with "1.prems" show ?thesis by (simp add: retry_loop.simps)
  next
    case True
    show ?thesis
    proof (cases "outcomes attempt")
      case Response
      with True "1.prems" show ?thesis by (simp add: retry_loop.simps)
    next
      case (Failure code)
      with True "1.IH" "1.prems" j show ?thesis
        by (subst retry_loop.simps) auto
    qed
  qed
qed

lemma retry_loop_prefix:
  "\<exists>rest. rr_sleeps (retry_loop cfg outcomes rnd attempt lastError slept) = slept @ rest"
proof (induction cfg outcomes rnd attempt lastError slept rule: retry_loop.induct)
  case (1 cfg outcomes rnd attempt lastError slept)
  show ?case
  proof (cases "attempt < maxRetries cfg")
    case False
    then show ?thesis by (simp add: retry_loop.simps)
  next
    case True
    show ?thesis
    proof (cases "outcomes attempt")
      case Response
      with True show ?thesis by (simp add: retry_loop.simps)
    next
      case (Failure code)
      with True "1.IH" show ?thesis
        by (subst retry_loop.simps) auto
    qed
  qed
qed

lemma reaches_Suc: "reaches outcomes (Suc k) = (reaches outcomes k \<and> retryable (outcomes k))"
  by (simp add: reaches_def)

lemma retry_loop_reaches:
  "reaches outcomes k \<Longrightarrow> k \<le> maxRetries cfg \<Longrightarrow>
     \<exists>le sl. callWithRetry cfg outcomes rnd = retry_loop cfg outcomes rnd k le sl"
proof (induction k)
  case 0
  then show ?case by (auto simp: callWithRetry_def)
next
  case (Suc k)
  then have r: "reaches outcomes k" and t: "retryable (outcomes k)" and lt: "k < maxRetries cfg"
    by (simp_all add: reaches_Suc)
  from Suc.IH [OF r] lt obtain le sl where
    c: "callWithRetry cfg outcomes rnd = retry_loop cfg outcomes rnd k le sl" by auto
  from t obtain code where f: "outcomes k = Failure code" "code \<noteq> Some 401" "code \<noteq> Some 403"
    by (cases "outcomes k") auto
  from lt f have "\<exists>le' sl'. retry_loop cfg outcomes rnd k le sl
      = retry_loop cfg outcomes rnd (Suc k) le' sl'"
    by (subst retry_loop.simps) auto
  with c show ?case by auto
qed

lemma auth_abort:
  assumes "reaches outcomes k" "k < maxRetries cfg" "outcomes k = Failure (Some c)"
    "c = 401 \<or> c = 403"
  shows "rr_result (callWithRetry cfg outcomes rnd) = Thrown (Some (Some c))
     \<and> rr_requests (callWithRetry cfg outcomes rnd) = k + 1"
proof -
  from retry_loop_reaches [OF assms(1), of cfg rnd] assms(2) obtain le sl where
    "callWithRetry cfg outcomes rnd = retry_loop cfg outcomes rnd k le sl" by auto
  with assms(2-4) show ?thesis
    by (auto simp: retry_loop.simps)
qed

lemma rate_limited_sleep:
  assumes "reaches outcomes k" "k < maxRetries cfg" "outcomes k = Failure (Some 429)"
  shows "(k + 2, sleep cfg (k + 2) (rnd k)) \<in> set (rr_sleeps (callWithRetry cfg outcomes rnd))"
proof -
  from retry_loop_reaches [OF assms(1), of cfg rnd] assms(2) obtain le sl where
    c: "callWithRetry cfg outcomes rnd = retry_loop cfg outcomes rnd k le sl" by auto
  from assms(2,3) have "retry_loop cfg outcomes rnd k le sl
      = retry_loop cfg outcomes rnd (k + 1) (Some (Some 429))
          (sl @ [(k + 2, sleep cfg (k + 2) (rnd k))])"
    by (subst retry_loop.simps) simp
  with c retry_loop_prefix [of cfg outcomes rnd "k + 1" "Some (Some 429)"
      "sl @ [(k + 2, sleep cfg (k + 2) (rnd k))]"]
  show ?thesis by auto
qed

lemma other_failure_sleep:
  assumes "reaches outcomes k" "k + 1 < maxRetries cfg" "outcomes k = Failure code"
    "code \<noteq> Some 401" "code \<noteq> Some 403" "code \<noteq> Some 429"
  shows "(k, sleep cfg k (rnd k)) \<in> set (rr_sleeps (callWithRetry cfg outcomes rnd))"
proof -
  from retry_loop_reaches [OF assms(1), of cfg rnd] assms(2) obtain le sl where
    c: "callWithRetry cfg outcomes rnd = retry_loop cfg outcomes rnd k le sl" by auto
  from assms(2-6) have "retry_loop cfg outcomes rnd k le sl
      = retry_loop cfg outcomes rnd (k + 1) (Some code)
          (sl @ [(k, sleep cfg k (rnd k))])"
    by (subst retry_loop.simps) auto
  with c retry_loop_prefix [of cfg outcomes rnd "k + 1" "Some code"
      "sl @ [(k, sleep cfg k (rnd k))]"]
  show ?thesis by auto
qed

lemma backoff_two_doublings:
  "backoff cfg (k + 2) = min (4 * (baseDelay cfg * 2 ^ k)) (maxDelay cfg)"
  by (simp add: backoff_def algebra_simps)

text \<open>
  Claim C7, as the code has it.  \<open>callWithRetry\<close> makes at most \<open>maxRetries\<close> requests.
  Every sleep lasts \<open>min(base * 2^k, maxDelay)\<close> plus a jitter of less than 10% of that,
  for the argument \<open>k\<close> passed to \<open>sleep\<close> (defaults: 3 attempts, base 1000 ms, cap
  30000 ms).  A 401 or 403 at a reached attempt \<open>k\<close> is thrown at once: \<open>k + 1\<close> requests
  were made and no more follow.  A 429 at a reached attempt \<open>k\<close> sleeps with the argument
  \<open>k + 2\<close>, that is with two extra doublings (four times the uncapped delay of attempt
  \<open>k\<close>); any other failure before the last attempt sleeps with the argument \<open>k\<close>.
\<close>

theorem callWithRetry_policy:
  assumes "0 < baseDelay cfg" and "0 < maxDelay cfg" and "\<forall>k. 0 \<le> rnd k \<and> rnd k < 1"
  shows "rr_requests (callWithRetry cfg outcomes rnd) \<le> maxRetries cfg
     \<and> list_all (jittered cfg) (rr_sleeps (callWithRetry cfg outcomes rnd))
     \<and> (reaches outcomes k \<and> k < maxRetries cfg
          \<and> (outcomes k = Failure (Some 401) \<or> outcomes k = Failure (Some 403)) \<longrightarrow>
           rr_result (callWithRetry cfg outcomes rnd) = Thrown (Some (case outcomes k of Failure c \<Rightarrow> c | Response \<Rightarrow> None))
           \<and> rr_requests (callWithRetry cfg outcomes rnd) = k + 1)
     \<and> (reaches outcomes k \<and> k < maxRetries cfg \<and> outcomes k = Failure (Some 429) \<longrightarrow>
           (k + 2, sleep cfg (k + 2) (rnd k)) \<in> set (rr_sleeps (callWithRetry cfg outcomes rnd)))
     \<and> (reaches outcomes k \<and> k + 1 < maxRetries cfg \<and> retryable (outcomes k)
          \<and> outcomes k \<noteq> Failure (Some 429) \<longrightarrow>
           (k, sleep cfg k (rnd k)) \<in> set (rr_sleeps (callWithRetry cfg outcomes rnd)))
     \<and> backoff cfg (k + 2) = min (4 * (baseDelay cfg * 2 ^ k)) (maxDelay cfg)
     \<and> maxRetries default_ai_config = 3
     \<and> backoff default_ai_config k = min (1000 * 2 ^ k) 30000"
proof -
  have a: "rr_requests (callWithRetry cfg outcomes rnd) \<le> maxRetries cfg"
    by (simp add: callWithRetry_def retry_loop_requests)
  have b: "list_all (jittered cfg) (rr_sleeps (callWithRetry cfg outcomes rnd))"
    using assms by (simp add: callWithRetry_def retry_loop_sleeps)
  have c: "reaches outcomes k \<and> k < maxRetries cfg
          \<and> (outcomes k = Failure (Some 401) \<or> outcomes k = Failure (Some 403)) \<longrightarrow>
           rr_result (callWithRetry cfg outcomes rnd) = Thrown (Some (case outcomes k of Failure c \<Rightarrow> c | Response \<Rightarrow> None))
           \<and> rr_requests (callWithRetry cfg outcomes rnd) = k + 1"
    using auth_abort [of outcomes k cfg 401 rnd] auth_abort [of outcomes k cfg 403 rnd]
    by auto
  have d: "reaches outcomes k \<and> k < maxRetries cfg \<and> outcomes k = Failure (Some 429) \<longrightarrow>
           (k + 2, sleep cfg (k + 2) (rnd k)) \<in> set (rr_sleeps (callWithRetry cfg outcomes rnd))"
    using rate_limited_sleep [of outcomes k cfg rnd] by blast
  have e: "reaches outcomes k \<and> k + 1 < maxRetries cfg \<and> retryable (outcomes k)
          \<and> outcomes k \<noteq> Failure (Some 429) \<longrightarrow>
           (k, sleep cfg k (rnd k)) \<in> set (rr_sleeps (callWithRetry cfg outcomes rnd))"
  proof (cases "outcomes k")
    case Response
    then show ?thesis by simp
  next
    case (Failure code)
    with other_failure_sleep [of outcomes k cfg code rnd] show ?thesis by auto
  qed
  have f: "backoff cfg (k + 2) = min (4 * (baseDelay cfg * 2 ^ k)) (maxDelay cfg)"
    by (rule backoff_two_doublings)
  have g: "maxRetries default_ai_config = 3"
    "backoff default_ai_config k = min (1000 * 2 ^ k) 30000"
    by (simp_all add: default_ai_config_def backoff_def)
  from a b c d e f g show ?thesis by blast
qed

text \<open>
  The witness: a 429, then a transport error, then a 401, with every random draw at one
  half.  Three requests are made; the sleeps are 4000 ms and 2000 ms plus 5%.
\<close>

definition outcomes_w :: "nat \<Rightarrow> outcome" where
  "outcomes_w k = (if k = 0 then Failure (Some 429) else if k = 1 then Failure None
                   else Failure (Some 401))"

lemma outcomes_w_run:
  "callWithRetry default_ai_config outcomes_w (\<lambda>k. 1 / 2)
     = \<lparr> rr_result = Thrown (Some (Some 401)), rr_requests = 3,
         rr_sleeps = [(2, 4200), (1, 2100)] \<rparr>"
  by (simp add: callWithRetry_def retry_loop.simps default_ai_config_def sleep_def
      backoff_def outcomes_w_def Let_def)

theorem callWithRetry_policy_witness:
  "0 < baseDelay default_ai_config \<and> 0 < maxDelay default_ai_config
   \<and> reaches outcomes_w 2 \<and> outcomes_w 2 = Failure (Some 401)
   \<and> rr_requests (callWithRetry default_ai_config outcomes_w (\<lambda>k. 1 / 2)) = 3
   \<and> rr_result (callWithRetry default_ai_config outcomes_w (\<lambda>k. 1 / 2)) = Thrown (Some (Some 401))
   \<and> rr_sleeps (callWithRetry default_ai_config outcomes_w (\<lambda>k. 1 / 2)) = [(2, 4200), (1, 2100)]
   \<and> list_all (jittered default_ai_config) [(2, 4200), (1, 2100)]"
proof -
  have p: "0 < baseDelay default_ai_config" "0 < maxDelay default_ai_config"
    by (simp_all add: default_ai_config_def)
  have r: "\<forall>k::nat. (0::real) \<le> 1 / 2 \<and> (1::real) / 2 < 1" by simp
  have q: "reaches outcomes_w 2" "outcomes_w 2 = Failure (Some 401)"
    by (simp_all add: reaches_def outcomes_w_def upt_rec)
  from callWithRetry_policy [OF p r, of outcomes_w 2] p q outcomes_w_run
  show ?thesis by simp
qed

text \<open>
  The claim as stated fails at a 429 on the first attempt: the sleep that follows is
  computed for the argument 2 and lasts 4000 ms (no jitter drawn), four times the 1000 ms
  of the first backoff, where one extra doubling would give 2000 ms.
\<close>

theorem callWithRetry_429_counterexample:
  "rr_sleeps (callWithRetry default_ai_config
                (\<lambda>k. if k = 0 then Failure (Some 429) else Response) (\<lambda>k. 0))
     = [(2, 4000)]
   \<and> backoff default_ai_config 0 = 1000
   \<and> (4000 :: real) \<noteq> 2 * backoff default_ai_config 0"
  by (simp add: callWithRetry_def retry_loop.simps default_ai_config_def sleep_def
      backoff_def Let_def)

section \<open>Aggregation worker (services/aggregationWorker.js, models/Event.js)\<close>

text \<open>
  An event document: the two fields the scorer reads, and the document's \<open>_id\<close>, its
  timestamp, its metadata (the string-valued entries; an absent key is \<open>None\<close>) and its
  \<open>incidentId\<close>, which is \<open>null\<close> or the \<open>_id\<close> of an incident.
\<close>

record event = scored_event +
  ev_oid :: nat
  ev_timestamp :: int
  ev_metadata :: "string \<Rightarrow> string option"
  ev_incidentId :: "nat option"



text \<open>
  The two collections the worker writes, and the next free object id.  The worker's
  writes to the \<open>ServiceStats\<close> collection (\<open>recordCounts\<close>, \<open>cleanup\<close>) touch neither
  events nor incidents and are left out; the spike results that a run reads back from
  \<open>checkSpikes\<close> are the argument \<open>spikeData\<close>.  Store operations are taken to succeed.
\<close>

record store =
  db_events :: "event list"
  db_incidents :: "incident list"
  db_next_oid :: nat














subsection \<open>Properties of the aggregation worker\<close>








































section \<open>PII redactor (server/services/piiRedactor.js)\<close>

text \<open>
  A JavaScript string is a sequence of UTF-16 code units, here a list of natural numbers;
  \<open>js\<close> turns an ASCII literal into its code units.
\<close>

type_synonym jsstring = "nat list"

definition js :: "string \<Rightarrow> jsstring" where
  "js s = map of_char s"

subsection \<open>Regular expressions\<close>

text \<open>
  The fragment of JavaScript's regular expressions that the redactor's patterns use:
  character classes, the word boundary \<open>\b\<close>, sequence, alternation and greedy
  quantifiers \<open>{lo,hi}\<close> (\<open>hi = None\<close> is unbounded).  Groups only bracket, since the
  replacement strings refer to no capture.
\<close>

datatype rx =
    Cls "nat \<Rightarrow> bool"
  | Bnd
  | Cat rx rx
  | Alt rx rx
  | Rep nat "nat option" rx
  | Emp

definition in_range :: "nat \<Rightarrow> nat \<Rightarrow> nat \<Rightarrow> bool" where
  "in_range lo hi c = (lo \<le> c \<and> c \<le> hi)"

definition is_digit :: "nat \<Rightarrow> bool" where  \<comment> \<open>\<open>\d\<close>, \<open>[0-9]\<close>\<close>
  "is_digit c = in_range 48 57 c"

definition is_upper :: "nat \<Rightarrow> bool" where  \<comment> \<open>\<open>[A-Z]\<close>\<close>
  "is_upper c = in_range 65 90 c"

definition is_lower :: "nat \<Rightarrow> bool" where  \<comment> \<open>\<open>[a-z]\<close>\<close>
  "is_lower c = in_range 97 122 c"

definition is_word :: "nat \<Rightarrow> bool" where  \<comment> \<open>\<open>\w\<close>, \<open>[A-Za-z0-9_]\<close>\<close>
  "is_word c = (is_lower c \<or> is_upper c \<or> is_digit c \<or> c = 95)"

definition is_space :: "nat \<Rightarrow> bool" where  \<comment> \<open>\<open>\s\<close>: white space and line terminators\<close>
  "is_space c =
     (in_range 9 13 c \<or> c = 32 \<or> c = 160 \<or> c = 5760 \<or> in_range 8192 8202 c
      \<or> c = 8232 \<or> c = 8233 \<or> c = 8239 \<or> c = 8287 \<or> c = 12288 \<or> c = 65279)"

text \<open>
  With the flag \<open>i\<close> a code unit matches a class when it or its other letter case does;
  only the ASCII letters have another case that a class of the patterns contains.
\<close>

definition lower_unit :: "nat \<Rightarrow> nat" where
  "lower_unit n = (if 65 \<le> n \<and> n \<le> 90 then n + 32 else n)"

definition upper_unit :: "nat \<Rightarrow> nat" where
  "upper_unit n = (if 97 \<le> n \<and> n \<le> 122 then n - 32 else n)"

definition cls_match :: "bool \<Rightarrow> (nat \<Rightarrow> bool) \<Rightarrow> nat \<Rightarrow> bool" where
  "cls_match ic p c = (if ic then p c \<or> p (lower_unit c) \<or> p (upper_unit c) else p c)"

text \<open>
  A matcher state is the code unit before the current position (none at the start of
  the input) and the rest of the input.  \<open>ends ic r st\<close> lists the states in which a
  match of \<open>r\<close> from \<open>st\<close> can end, in the order in which backtracking tries them; the
  first is the match that the engine reports.
\<close>

type_synonym mstate = "nat option \<times> jsstring"

definition at_boundary :: "mstate \<Rightarrow> bool" where
  "at_boundary st =
     ((case fst st of None \<Rightarrow> False | Some c \<Rightarrow> is_word c)
      \<noteq> (case snd st of [] \<Rightarrow> False | c # cs \<Rightarrow> is_word c))"

text \<open>
  A greedy quantifier first tries one more iteration, then stops.  Once the minimum is
  reached, an iteration that consumes nothing is rejected.
\<close>

function rep_ends :: "(mstate \<Rightarrow> mstate list) \<Rightarrow> nat \<Rightarrow> nat option \<Rightarrow> mstate \<Rightarrow> mstate list" where
  "rep_ends f lo hi st =
     (if hi = Some 0 then [st]
      else
        (let nexts = filter (\<lambda>st'. length (snd st') < length (snd st)
                                  \<or> (length (snd st') = length (snd st) \<and> 0 < lo)) (f st);
             more = concat (map (rep_ends f (lo - 1) (map_option (\<lambda>h. h - 1) hi)) nexts)
         in if 0 < lo then more else more @ [st]))"
  by pat_completeness auto
termination
  by (relation "measure (\<lambda>(f, lo, hi, st). length (snd st) + lo)") auto

declare rep_ends.simps [simp del]

primrec ends :: "bool \<Rightarrow> rx \<Rightarrow> mstate \<Rightarrow> mstate list" where
  "ends ic (Cls p) st =
     (case snd st of [] \<Rightarrow> [] | c # cs \<Rightarrow> if cls_match ic p c then [(Some c, cs)] else [])"
| "ends ic Bnd st = (if at_boundary st then [st] else [])"
| "ends ic (Cat a b) st = concat (map (ends ic b) (ends ic a st))"
| "ends ic (Alt a b) st = ends ic a st @ ends ic b st"
| "ends ic (Rep lo hi a) st = rep_ends (ends ic a) lo hi st"
| "ends ic Emp st = [st]"

definition first_end :: "bool \<Rightarrow> rx \<Rightarrow> mstate \<Rightarrow> mstate option" where
  "first_end ic r st = (case ends ic r st of [] \<Rightarrow> None | e # es \<Rightarrow> Some e)"

text \<open>
  \<open>text.replace(pattern, replacement)\<close> and \<open>text.match(pattern).length\<close> for a pattern
  with the flag \<open>g\<close>: scan from the left; at a position with a match, take it and go on
  behind it (one unit further after an empty match); otherwise go on one unit further.
\<close>

function replace_all :: "bool \<Rightarrow> rx \<Rightarrow> jsstring \<Rightarrow> nat option \<Rightarrow> jsstring \<Rightarrow> jsstring" where
  "replace_all ic r repl prev rest =
     (case first_end ic r (prev, rest) of
        Some (prev', rest') \<Rightarrow>
          (if length rest' < length rest then repl @ replace_all ic r repl prev' rest'
           else repl @ (case rest of [] \<Rightarrow> []
                        | c # cs \<Rightarrow> c # replace_all ic r repl (Some c) cs))
      | None \<Rightarrow>
          (case rest of [] \<Rightarrow> []
           | c # cs \<Rightarrow> c # replace_all ic r repl (Some c) cs))"
  by pat_completeness auto
termination
  by (relation "measure (\<lambda>(ic, r, repl, prev, rest). length rest)") auto

declare replace_all.simps [simp del]

function count_matches :: "bool \<Rightarrow> rx \<Rightarrow> nat option \<Rightarrow> jsstring \<Rightarrow> nat" where
  "count_matches ic r prev rest =
     (case first_end ic r (prev, rest) of
        Some (prev', rest') \<Rightarrow>
          (if length rest' < length rest then 1 + count_matches ic r prev' rest'
           else 1 + (case rest of [] \<Rightarrow> 0
                     | c # cs \<Rightarrow> count_matches ic r (Some c) cs))
      | None \<Rightarrow>
          (case rest of [] \<Rightarrow> 0
           | c # cs \<Rightarrow> count_matches ic r (Some c) cs))"
  by pat_completeness auto
termination
  by (relation "measure (\<lambda>(ic, r, prev, rest). length rest)") auto

declare count_matches.simps [simp del]

subsection \<open>The patterns\<close>

definition rx_chr :: "char \<Rightarrow> rx" where
  "rx_chr x = Cls (\<lambda>c. c = of_char x)"

definition one_of :: "string \<Rightarrow> nat \<Rightarrow> bool" where
  "one_of xs c = (c \<in> set (js xs))"

definition rx_lit :: "string \<Rightarrow> rx" where
  "rx_lit s = foldr (\<lambda>x r. Cat (rx_chr x) r) s Emp"

definition rx_cats :: "rx list \<Rightarrow> rx" where
  "rx_cats rs = foldr Cat rs Emp"

definition rx_alts :: "rx list \<Rightarrow> rx" where
  "rx_alts rs = foldr Alt (butlast rs) (last rs)"

definition rx_opt :: "rx \<Rightarrow> rx" where "rx_opt r = Rep 0 (Some 1) r"
definition rx_star :: "rx \<Rightarrow> rx" where "rx_star r = Rep 0 None r"
definition rx_plus :: "rx \<Rightarrow> rx" where "rx_plus r = Rep 1 None r"
definition rx_times :: "nat \<Rightarrow> rx \<Rightarrow> rx" where "rx_times n r = Rep n (Some n) r"
definition rx_at_least :: "nat \<Rightarrow> rx \<Rightarrow> rx" where "rx_at_least n r = Rep n None r"

definition rx_digit :: rx where "rx_digit = Cls is_digit"
definition rx_space :: rx where "rx_space = Cls is_space"

definition is_alnum :: "nat \<Rightarrow> bool" where  \<comment> \<open>\<open>[A-Za-z0-9]\<close>\<close>
  "is_alnum c = (is_upper c \<or> is_lower c \<or> is_digit c)"

definition is_hex :: "nat \<Rightarrow> bool" where  \<comment> \<open>\<open>[0-9a-fA-F]\<close>\<close>
  "is_hex c = (is_digit c \<or> in_range 97 102 c \<or> in_range 65 70 c)"

definition token_char :: rx where  \<comment> \<open>\<open>[a-zA-Z0-9_-]\<close>\<close>
  "token_char = Cls (\<lambda>c. is_alnum c \<or> one_of ''_-'' c)"

definition sep3 :: rx where  \<comment> \<open>\<open>[-.\s]\<close>\<close>
  "sep3 = Cls (\<lambda>c. one_of ''-.'' c \<or> is_space c)"

definition sep2 :: rx where  \<comment> \<open>\<open>[-\s]\<close>\<close>
  "sep2 = Cls (\<lambda>c. one_of ''-'' c \<or> is_space c)"

definition octet :: rx where  \<comment> \<open>\<open>(?:25[0-5]|2[0-4][0-9]|[01]?[0-9][0-9]?)\<close>\<close>
  "octet = rx_alts
     [rx_cats [rx_lit ''25'', Cls (\<lambda>c. in_range 48 53 c)],
      rx_cats [rx_chr CHR ''2'', Cls (\<lambda>c. in_range 48 52 c), rx_digit],
      rx_cats [rx_opt (Cls (\<lambda>c. one_of ''01'' c)), rx_digit, rx_opt rx_digit]]"

definition rx_email :: rx where
  "rx_email = rx_cats
     [Bnd, rx_plus (Cls (\<lambda>c. is_alnum c \<or> one_of ''._%+-'' c)), rx_chr CHR ''@'',
      rx_plus (Cls (\<lambda>c. is_alnum c \<or> one_of ''.-'' c)), rx_chr CHR ''.'',
      rx_at_least 2 (Cls (\<lambda>c. is_upper c \<or> one_of ''|'' c \<or> is_lower c)), Bnd]"

definition rx_ipv4 :: rx where
  "rx_ipv4 = rx_cats [Bnd, rx_times 3 (rx_cats [octet, rx_chr CHR ''.'']), octet, Bnd]"

definition rx_ipv6 :: rx where
  "rx_ipv6 = rx_cats
     [Bnd, rx_times 7 (rx_cats [Rep 1 (Some 4) (Cls is_hex), rx_chr CHR '':'']),
      Rep 1 (Some 4) (Cls is_hex), Bnd]"

definition rx_phone :: rx where
  "rx_phone = rx_cats
     [Bnd,
      rx_opt (rx_cats [rx_opt (rx_chr CHR ''+''), rx_chr CHR ''1'', rx_opt sep3]),
      rx_opt (rx_cats [rx_opt (rx_chr CHR ''(''), rx_times 3 rx_digit, rx_opt (rx_chr CHR '')''),
                       rx_opt sep3]),
      rx_times 3 rx_digit, rx_opt sep3, rx_times 4 rx_digit, Bnd]"

definition rx_ssn :: rx where
  "rx_ssn = rx_cats
     [Bnd, rx_times 3 rx_digit, rx_opt sep2, rx_times 2 rx_digit, rx_opt sep2,
      rx_times 4 rx_digit, Bnd]"

definition rx_creditCard :: rx where
  "rx_creditCard = rx_cats
     [Bnd, rx_times 3 (rx_cats [rx_times 4 rx_digit, rx_opt sep2]), rx_times 4 rx_digit, Bnd]"

definition rx_awsKey :: rx where
  "rx_awsKey = rx_cats
     [Bnd, rx_alts [rx_lit ''AKIA'', rx_lit ''ABIA'', rx_lit ''ACCA'', rx_lit ''ASIA''],
      rx_times 16 (Cls (\<lambda>c. is_digit c \<or> is_upper c)), Bnd]"

definition quote_colon_space :: rx where  \<comment> \<open>\<open>['":\s]\<close>\<close>
  "quote_colon_space = Cls (\<lambda>c. one_of [CHR 0x27, CHR 0x22, CHR '':''] c \<or> is_space c)"

definition rx_quote :: rx where  \<comment> \<open>\<open>['"]\<close>\<close>
  "rx_quote = Cls (\<lambda>c. one_of [CHR 0x27, CHR 0x22] c)"

definition rx_apiKey :: rx where
  "rx_apiKey = rx_cats
     [Bnd,
      rx_alts [rx_cats [rx_lit ''api'', rx_opt (Cls (\<lambda>c. one_of ''_-'' c)), rx_lit ''key''],
               rx_lit ''apikey'', rx_lit ''token'', rx_lit ''secret''],
      rx_star quote_colon_space, Cls (\<lambda>c. one_of ''=:'' c), rx_star rx_space, rx_opt rx_quote,
      rx_at_least 20 token_char, rx_opt rx_quote]"

definition rx_bearerToken :: rx where
  "rx_bearerToken = rx_cats
     [rx_lit ''Bearer'', rx_plus rx_space, rx_plus token_char, rx_chr CHR ''.'',
      rx_plus token_char, rx_chr CHR ''.'', rx_plus token_char]"

definition rx_jwt :: rx where
  "rx_jwt = rx_cats
     [Bnd, rx_lit ''eyJ'', rx_star token_char, rx_chr CHR ''.'', rx_lit ''eyJ'',
      rx_star token_char, rx_chr CHR ''.'', rx_star token_char]"

definition cap_word :: rx where  \<comment> \<open>\<open>[A-Z][a-z]+\<close>\<close>
  "cap_word = rx_cats [Cls is_upper, rx_plus (Cls is_lower)]"

definition rx_namedValues :: rx where
  "rx_namedValues = rx_cats
     [Bnd,
      rx_alts [rx_lit ''name'', rx_lit ''user'', rx_lit ''username'', rx_lit ''author'',
               rx_lit ''owner'', rx_lit ''assigned''],
      rx_star quote_colon_space, Cls (\<lambda>c. one_of ''=:'' c), rx_star rx_space, rx_opt rx_quote,
      rx_cats [cap_word, rx_opt (rx_cats [rx_plus rx_space, cap_word])], rx_opt rx_quote]"

text \<open>
  The table \<open>patterns\<close> in the order of its keys, each with its flag \<open>i\<close> and its entry
  of \<open>replacements\<close>.
\<close>

record pattern =
  p_type :: string
  p_ignoreCase :: bool
  p_rx :: rx
  p_replacement :: jsstring

definition patterns :: "pattern list" where
  "patterns =
     [\<lparr>p_type = ''email'', p_ignoreCase = False, p_rx = rx_email,
       p_replacement = js ''[REDACTED_EMAIL]''\<rparr>,
      \<lparr>p_type = ''ipv4'', p_ignoreCase = False, p_rx = rx_ipv4,
       p_replacement = js ''[REDACTED_IP]''\<rparr>,
      \<lparr>p_type = ''ipv6'', p_ignoreCase = False, p_rx = rx_ipv6,
       p_replacement = js ''[REDACTED_IPV6]''\<rparr>,
      \<lparr>p_type = ''phone'', p_ignoreCase = False, p_rx = rx_phone,
       p_replacement = js ''[REDACTED_PHONE]''\<rparr>,
      \<lparr>p_type = ''ssn'', p_ignoreCase = False, p_rx = rx_ssn,
       p_replacement = js ''[REDACTED_SSN]''\<rparr>,
      \<lparr>p_type = ''creditCard'', p_ignoreCase = False, p_rx = rx_creditCard,
       p_replacement = js ''[REDACTED_CC]''\<rparr>,
      \<lparr>p_type = ''awsKey'', p_ignoreCase = False, p_rx = rx_awsKey,
       p_replacement = js ''[REDACTED_AWS_KEY]''\<rparr>,
      \<lparr>p_type = ''apiKey'', p_ignoreCase = True, p_rx = rx_apiKey,
       p_replacement = js ''[REDACTED_API_KEY]''\<rparr>,
      \<lparr>p_type = ''bearerToken'', p_ignoreCase = False, p_rx = rx_bearerToken,
       p_replacement = js ''[REDACTED_TOKEN]''\<rparr>,
      \<lparr>p_type = ''jwt'', p_ignoreCase = False, p_rx = rx_jwt,
       p_replacement = js ''[REDACTED_JWT]''\<rparr>,
      \<lparr>p_type = ''namedValues'', p_ignoreCase = True, p_rx = rx_namedValues,
       p_replacement = js ''[REDACTED_NAME]''\<rparr>]"

subsection \<open>redactString\<close>

definition matches_of :: "pattern \<Rightarrow> jsstring \<Rightarrow> nat" where
  "matches_of p text = count_matches (p_ignoreCase p) (p_rx p) None text"

definition replace_of :: "pattern \<Rightarrow> jsstring \<Rightarrow> jsstring" where
  "replace_of p text = replace_all (p_ignoreCase p) (p_rx p) (p_replacement p) None text"

definition redact_step ::
  "jsstring \<times> (string \<times> nat) list \<Rightarrow> pattern \<Rightarrow> jsstring \<times> (string \<times> nat) list" where
  "redact_step acc p =
     (let redactedText = fst acc; redactions = snd acc; n = matches_of p redactedText
      in if n > 0 then (replace_of p redactedText, redactions @ [(p_type p, n)])
         else (redactedText, redactions))"

record redacted =
  r_text :: jsstring
  r_redactions :: "(string \<times> nat) list"
  r_hasRedactions :: bool

definition redactString :: "jsstring \<Rightarrow> redacted" where
  "redactString text =
     (let acc = foldl redact_step (text, []) patterns
      in \<lparr> r_text = fst acc, r_redactions = snd acc, r_hasRedactions = (snd acc \<noteq> []) \<rparr>)"

text \<open>The number of matches of all patterns in a text, and a text that none matches.\<close>

definition total_matches :: "jsstring \<Rightarrow> nat" where
  "total_matches text = sum_list (map (\<lambda>p. matches_of p text) patterns)"

definition no_matches :: "jsstring \<Rightarrow> bool" where
  "no_matches text = list_all (\<lambda>p. matches_of p text = 0) patterns"

subsection \<open>Properties of the redactor\<close>

lemma foldl_redact_step_clean:
  "list_all (\<lambda>p. matches_of p t = 0) ps \<Longrightarrow> foldl redact_step (t, rs) ps = (t, rs)"
  by (induction ps) (simp_all add: redact_step_def Let_def)

lemma redactString_clean:
  "no_matches t \<Longrightarrow>
     redactString t = \<lparr> r_text = t, r_redactions = [], r_hasRedactions = False \<rparr>"
  by (simp add: redactString_def no_matches_def foldl_redact_step_clean Let_def)

lemma total_matches_clean: "no_matches t \<Longrightarrow> total_matches t = 0"
  by (simp add: no_matches_def total_matches_def list_all_iff)

text \<open>
  Evaluation of the matcher on a given text runs in two steps: the patterns and the text
  are first brought into code units, then the matcher is unfolded with the rules below.
\<close>

lemmas to_units =
  js_def matches_of_def replace_of_def patterns_def no_matches_def
  rx_email_def rx_ipv4_def rx_ipv6_def rx_phone_def rx_ssn_def rx_creditCard_def
  rx_awsKey_def rx_apiKey_def rx_bearerToken_def rx_jwt_def rx_namedValues_def
  octet_def rx_quote_def quote_colon_space_def cap_word_def
  rx_cats_def rx_alts_def rx_opt_def rx_star_def rx_plus_def rx_times_def
  rx_at_least_def rx_digit_def rx_space_def rx_chr_def rx_lit_def sep3_def sep2_def token_char_def
  is_alnum_def is_digit_def is_upper_def is_lower_def is_space_def
  in_range_def one_of_def is_hex_def

lemma upper_unit_outside: "n < 97 \<or> 122 < n \<Longrightarrow> upper_unit n = n"
  by (auto simp: upper_unit_def)

lemma upper_unit_letters:
  "upper_unit 97 = 65" "upper_unit 98 = 66" "upper_unit 99 = 67" "upper_unit 100 = 68"
  "upper_unit 101 = 69" "upper_unit 102 = 70" "upper_unit 103 = 71" "upper_unit 104 = 72"
  "upper_unit 105 = 73" "upper_unit 106 = 74" "upper_unit 107 = 75" "upper_unit 108 = 76"
  "upper_unit 109 = 77" "upper_unit 110 = 78" "upper_unit 111 = 79" "upper_unit 112 = 80"
  "upper_unit 113 = 81" "upper_unit 114 = 82" "upper_unit 115 = 83" "upper_unit 116 = 84"
  "upper_unit 117 = 85" "upper_unit 118 = 86" "upper_unit 119 = 87" "upper_unit 120 = 88"
  "upper_unit 121 = 89" "upper_unit 122 = 90"
  by (simp_all add: upper_unit_def)

lemma length_Cons_Suc: "length (x # xs) = Suc (length xs)"
  by simp

lemma length_Nil_0: "length ([] :: 'a list) = 0"
  by simp

lemmas matcher_rules =
  count_matches.simps replace_all.simps rep_ends.simps first_end_def Let_def ends.simps
  cls_match_def at_boundary_def is_word_def is_lower_def is_upper_def is_digit_def in_range_def
  is_hex_def is_alnum_def is_space_def
  lower_unit_def upper_unit_letters upper_unit_outside
  if_True if_False simp_thms list.case option.case prod.case fst_conv snd_conv
  list.map concat.simps append.simps filter.simps foldl.simps list.pred_inject
  list.inject list.distinct option.inject option.distinct prod.inject
  rel_simps arith_simps
  length_Cons_Suc length_Nil_0 Suc_less_eq zero_less_Suc not_less0 nat.inject nat.distinct
  diff_numeral_Suc diff_Suc_Suc diff_zero diff_0_eq_0 pred_numeral_simps One_nat_def
  option.map zero_less_numeral numeral_One
  add_Suc add_0 add_Suc_right

lemma placeholders_clean: "list_all (\<lambda>p. no_matches (p_replacement p)) patterns"
  apply (simp add: to_units)
  apply (simp only: matcher_rules
      cong: if_weak_cong list.case_cong_weak option.case_cong_weak prod.case_cong_weak)
  done

text \<open>
  Claim C6, as the code has it.  A text that no pattern matches is returned unchanged
  with no redactions, so a second pass changes nothing whenever the first pass leaves no
  match behind, and the match count of such a text stays 0.  No pattern matches inside a
  placeholder token: each of the eleven tokens is returned unchanged with no redactions.
\<close>

theorem redact_fixed_points:
  "(no_matches (r_text (redactString x)) \<longrightarrow>
      redactString (r_text (redactString x))
        = \<lparr> r_text = r_text (redactString x), r_redactions = [], r_hasRedactions = False \<rparr>
      \<and> total_matches (r_text (redactString (r_text (redactString x)))) = 0)
   \<and> list_all (\<lambda>p. no_matches (p_replacement p)
                  \<and> redactString (p_replacement p)
                      = \<lparr> r_text = p_replacement p, r_redactions = [],
                          r_hasRedactions = False \<rparr>) patterns"
proof -
  have "no_matches t \<longrightarrow>
      redactString t = \<lparr> r_text = t, r_redactions = [], r_hasRedactions = False \<rparr>
      \<and> total_matches (r_text (redactString t)) = 0" for t
    by (simp add: redactString_clean total_matches_clean)
  moreover have "list_all (\<lambda>p. no_matches (p_replacement p)
                  \<and> redactString (p_replacement p)
                      = \<lparr> r_text = p_replacement p, r_redactions = [],
                          r_hasRedactions = False \<rparr>) patterns"
    using placeholders_clean by (simp add: list_all_iff redactString_clean)
  ultimately show ?thesis by blast
qed

text \<open>
  The witness: the e-mail address \<open>a@b.com\<close> is replaced by its placeholder, which no
  pattern matches, and a second pass returns it unchanged.
\<close>

definition w6_x :: jsstring where "w6_x = js ''a@b.com''"

lemma w6_x_email:
  "matches_of (patterns ! 0) w6_x = 1 \<and> replace_of (patterns ! 0) w6_x = js ''[REDACTED_EMAIL]''"
  apply (simp add: to_units w6_x_def)
  apply (simp only: matcher_rules
      cong: if_weak_cong list.case_cong_weak option.case_cong_weak prod.case_cong_weak)
  done

lemma w6_first_pass:
  "redactString w6_x
     = \<lparr> r_text = js ''[REDACTED_EMAIL]'', r_redactions = [(''email'', 1)],
         r_hasRedactions = True \<rparr>"
proof -
  have p: "patterns = (patterns ! 0) # tl patterns" "p_type (patterns ! 0) = ''email''"
    "p_replacement (patterns ! 0) = js ''[REDACTED_EMAIL]''"
    by (simp_all add: patterns_def)
  have "list_all (\<lambda>p. matches_of p (js ''[REDACTED_EMAIL]'') = 0) patterns"
    using placeholders_clean by (simp add: patterns_def no_matches_def)
  then have t: "list_all (\<lambda>p. matches_of p (js ''[REDACTED_EMAIL]'') = 0) (tl patterns)"
    by (simp add: patterns_def)
  have "foldl redact_step (w6_x, []) patterns
      = foldl redact_step (js ''[REDACTED_EMAIL]'', [(''email'', 1)]) (tl patterns)"
    by (subst p(1)) (simp add: redact_step_def Let_def w6_x_email p(2))
  with foldl_redact_step_clean [OF t] show ?thesis
    by (simp add: redactString_def Let_def)
qed

theorem redact_fixed_points_witness:
  "r_text (redactString w6_x) = js ''[REDACTED_EMAIL]''
   \<and> no_matches (r_text (redactString w6_x))
   \<and> redactString (r_text (redactString w6_x))
       = \<lparr> r_text = js ''[REDACTED_EMAIL]'', r_redactions = [], r_hasRedactions = False \<rparr>"
proof -
  have n: "no_matches (r_text (redactString w6_x))"
    using placeholders_clean by (simp add: w6_first_pass patterns_def)
  from redact_fixed_points [of w6_x] n show ?thesis
    by (simp add: w6_first_pass)
qed

text \<open>
  The claim as stated fails at the text \<open>user=Al1234 5678 9012 3456\<close>.  The first pass
  finds one match, of the last pattern, and replaces \<open>user=Al\<close>.  The digits that follow
  now start at a word boundary, so in the result the phone pattern and the credit card
  pattern match: two matches where the input had one, and a second pass redacts again.
\<close>

definition c6_x :: jsstring where "c6_x = js ''user=Al1234 5678 9012 3456''"
definition c6_y :: jsstring where "c6_y = js ''[REDACTED_NAME]1234 5678 9012 3456''"
definition c6_z :: jsstring where "c6_z = js ''[REDACTED_NAME][REDACTED_PHONE] 9012 3456''"

lemma c6_x_counts:
  "map (\<lambda>p. matches_of p c6_x) patterns = [0, 0, 0, 0, 0, 0, 0, 0, 0, 0, 1]"
  apply (simp add: to_units c6_x_def)
  apply (simp only: matcher_rules
      cong: if_weak_cong list.case_cong_weak option.case_cong_weak prod.case_cong_weak)
  done

lemma c6_x_replace: "replace_of (patterns ! 10) c6_x = c6_y"
  apply (simp add: to_units c6_x_def c6_y_def)
  apply (simp only: matcher_rules
      cong: if_weak_cong list.case_cong_weak option.case_cong_weak prod.case_cong_weak)
  done

lemma c6_y_counts:
  "map (\<lambda>p. matches_of p c6_y) patterns = [0, 0, 0, 1, 0, 1, 0, 0, 0, 0, 0]"
  apply (simp add: to_units c6_y_def)
  apply (simp only: matcher_rules
      cong: if_weak_cong list.case_cong_weak option.case_cong_weak prod.case_cong_weak)
  done

lemma c6_y_replace: "replace_of (patterns ! 3) c6_y = c6_z"
  apply (simp add: to_units c6_y_def c6_z_def)
  apply (simp only: matcher_rules
      cong: if_weak_cong list.case_cong_weak option.case_cong_weak prod.case_cong_weak)
  done

lemma c6_z_counts:
  "map (\<lambda>p. matches_of p c6_z) (drop 4 patterns) = [0, 0, 0, 0, 0, 0, 0]"
  apply (simp add: to_units c6_z_def)
  apply (simp only: matcher_rules
      cong: if_weak_cong list.case_cong_weak option.case_cong_weak prod.case_cong_weak)
  done


lemma c6_first_pass:
  "redactString c6_x
     = \<lparr> r_text = c6_y, r_redactions = [(''namedValues'', 1)], r_hasRedactions = True \<rparr>"
  using c6_x_counts c6_x_replace
  by (simp add: redactString_def patterns_def redact_step_def Let_def)

lemma c6_second_pass:
  "redactString c6_y
     = \<lparr> r_text = c6_z, r_redactions = [(''phone'', 1)], r_hasRedactions = True \<rparr>"
  using c6_y_counts c6_y_replace c6_z_counts
  by (simp add: redactString_def patterns_def redact_step_def Let_def)

theorem redact_twice_counterexample:
  "c6_x = js ''user=Al1234 5678 9012 3456''
   \<and> r_text (redactString c6_x) = js ''[REDACTED_NAME]1234 5678 9012 3456''
   \<and> r_text (redactString (r_text (redactString c6_x)))
       = js ''[REDACTED_NAME][REDACTED_PHONE] 9012 3456''
   \<and> redactString (r_text (redactString c6_x)) \<noteq> redactString c6_x
   \<and> r_text (redactString (r_text (redactString c6_x))) \<noteq> r_text (redactString c6_x)
   \<and> total_matches c6_x = 1
   \<and> total_matches (r_text (redactString c6_x)) = 2"
proof -
  have ne: "c6_z \<noteq> c6_y"
    by (simp add: c6_z_def c6_y_def js_def)
  have tx: "total_matches c6_x = 1"
    by (simp add: total_matches_def c6_x_counts)
  have ty: "total_matches c6_y = 2"
    by (simp add: total_matches_def c6_y_counts)
  from ne tx ty show ?thesis
    by (simp add: c6_first_pass c6_second_pass) (simp add: c6_x_def c6_y_def c6_z_def)
qed

end
